theory Spec2Isabelle
  imports Complex_Main "HOL-Library.Word" "HOL-Library.Multiset"
begin

section \<open>Floating-point numbers\<close>

text \<open>
  A \<open>float64\<close> is a finite number, an infinity or NaN. A finite value is held as the real
  number it stands for; the two zeros are one value, and so are all NaNs. The result of an
  arithmetic operation is the exact result rounded to the nearest number with 53 binary
  digits, a tie going to the one whose last digit is even (\<open>round64\<close>); below \<open>2^-1022\<close> the
  spacing stays \<open>2^-1074\<close>, and a result that rounds to \<open>2^1024\<close> or beyond is an infinity.
\<close>

datatype float64 = Finite real | PlusInf | MinusInf | NaN

text \<open>Rounding to the nearest integer, a tie going to the even one.\<close>

definition rne :: "real \<Rightarrow> int" where
  "rne y =
     (let f = \<lfloor>y\<rfloor> in
      if y - of_int f < 1 / 2 then f
      else if 1 / 2 < y - of_int f then f + 1
      else if even f then f else f + 1)"

text \<open>
  The binary exponent of a number: the \<open>e\<close> with \<open>2^e \<le> a < 2^(e+1)\<close>, found by halving or
  doubling, and kept between -1022 and 1024.
\<close>

fun expoUp :: "nat \<Rightarrow> real \<Rightarrow> int" where
  "expoUp 0 a = 0"
| "expoUp (Suc n) a = (if a < 2 then 0 else 1 + expoUp n (a / 2))"

fun expoDown :: "nat \<Rightarrow> real \<Rightarrow> int" where
  "expoDown 0 a = 0"
| "expoDown (Suc n) a = (if 1 \<le> a then 0 else expoDown n (2 * a) - 1)"

definition expo :: "real \<Rightarrow> int" where
  "expo x = (if 1 \<le> \<bar>x\<bar> then expoUp 1024 \<bar>x\<bar> else expoDown 1022 \<bar>x\<bar>)"

text \<open>The spacing of the 53-digit numbers around \<open>x\<close>, and the one nearest to \<open>x\<close>.\<close>

definition ulp :: "real \<Rightarrow> real" where
  "ulp x = 2 powi (expo x - 52)"

definition nearest :: "real \<Rightarrow> real" where
  "nearest x = ulp x * of_int (rne (x / ulp x))"

definition round64 :: "real \<Rightarrow> float64" where
  "round64 x =
     (if 2 ^ 1024 \<le> \<bar>nearest x\<bar> then (if 0 < x then PlusInf else MinusInf)
      else Finite (nearest x))"

text \<open>
  Subtraction, multiplication and division. With the two zeros being one value, a division
  by zero takes the zero as the positive one; the source divides by the constant 100 only.
\<close>

fun sub64 :: "float64 \<Rightarrow> float64 \<Rightarrow> float64" where
  "sub64 (Finite a) (Finite b) = round64 (a - b)"
| "sub64 NaN y = NaN"
| "sub64 x NaN = NaN"
| "sub64 PlusInf PlusInf = NaN"
| "sub64 MinusInf MinusInf = NaN"
| "sub64 PlusInf y = PlusInf"
| "sub64 MinusInf y = MinusInf"
| "sub64 (Finite a) PlusInf = MinusInf"
| "sub64 (Finite a) MinusInf = PlusInf"

fun mul64 :: "float64 \<Rightarrow> float64 \<Rightarrow> float64" where
  "mul64 (Finite a) (Finite b) = round64 (a * b)"
| "mul64 NaN y = NaN"
| "mul64 x NaN = NaN"
| "mul64 (Finite a) PlusInf = (if a = 0 then NaN else if 0 < a then PlusInf else MinusInf)"
| "mul64 (Finite a) MinusInf = (if a = 0 then NaN else if 0 < a then MinusInf else PlusInf)"
| "mul64 PlusInf (Finite b) = (if b = 0 then NaN else if 0 < b then PlusInf else MinusInf)"
| "mul64 MinusInf (Finite b) = (if b = 0 then NaN else if 0 < b then MinusInf else PlusInf)"
| "mul64 PlusInf PlusInf = PlusInf"
| "mul64 MinusInf MinusInf = PlusInf"
| "mul64 PlusInf MinusInf = MinusInf"
| "mul64 MinusInf PlusInf = MinusInf"

fun div64 :: "float64 \<Rightarrow> float64 \<Rightarrow> float64" where
  "div64 (Finite a) (Finite b) =
     (if b = 0 then (if a = 0 then NaN else if 0 < a then PlusInf else MinusInf)
      else round64 (a / b))"
| "div64 NaN y = NaN"
| "div64 x NaN = NaN"
| "div64 (Finite a) PlusInf = Finite 0"
| "div64 (Finite a) MinusInf = Finite 0"
| "div64 PlusInf (Finite b) = (if 0 \<le> b then PlusInf else MinusInf)"
| "div64 MinusInf (Finite b) = (if 0 \<le> b then MinusInf else PlusInf)"
| "div64 PlusInf y = NaN"
| "div64 MinusInf y = NaN"

text \<open>
  An \<open>int\<close> has 64 bits, as on amd64 and arm64; \<open>int64\<close> is the value an integer wraps to.
\<close>

definition int64 :: "int \<Rightarrow> int" where
  "int64 i = (i + 2 ^ 63) mod 2 ^ 64 - 2 ^ 63"

section \<open>Data model of the terminal frontend\<close>

text \<open>
  The frontend keeps its whole state in the struct \<open>model\<close> and is driven by the
  messages \<open>tea.WindowSizeMsg\<close>, \<open>tea.KeyMsg\<close> and \<open>TickMsg\<close>. A \<open>uint64\<close> is a
  \<open>64 word\<close>, a \<open>time.Time\<close> is a number of milliseconds.

  Types of the libraries are reduced to the fields the source reads or writes:
  \<open>cpu.TimesStat\<close> and \<open>mem.VirtualMemoryStat\<close> of gopsutil, \<open>lipgloss.Style\<close> and
  \<open>table.Model\<close>.
\<close>

record TimesStat =
  User :: float64
  System :: float64
  Idle :: float64
  Nice :: float64
  Iowait :: float64
  Irq :: float64
  Softirq :: float64
  Steal :: float64
  Guest :: float64

record VirtualMemoryStat =
  Total :: "64 word"
  Used :: "64 word"
  Available :: "64 word"
  Active :: "64 word"
  Buffers :: "64 word"
  Cached :: "64 word"
  UsedPercent :: float64

text \<open>
  The element type of the slice that \<open>GetProcesses\<close> returns. Its declaration is
  missing from the sources; the fields are the ones \<open>Update\<close> reads
  (\<open>p.PID\<close> is printed with \<open>%d\<close>, \<open>p.CPUPercent\<close> with \<open>%.2f\<close>, \<open>p.RunningTime\<close> is
  stored in a table cell as it is, so it is a string). The CPU percentage is only compared
  and formatted; it is held as the finite number it stands for.
\<close>

record Process =
  PID :: int
  Name :: string
  CPUPercent :: real
  Memory :: "64 word"
  Username :: string
  RunningTime :: string

record AdaptiveColor =
  Light :: string
  Dark :: string

record Theme =
  Primary :: AdaptiveColor
  Secondary :: AdaptiveColor
  Highlight :: AdaptiveColor
  Border :: AdaptiveColor
  Green :: AdaptiveColor
  Red :: AdaptiveColor

definition Color :: Theme where
  "Color =
     \<lparr>Primary = \<lparr>Light = ''#000000'', Dark = ''#FFFFFF''\<rparr>,
      Secondary = \<lparr>Light = ''#969B86'', Dark = ''#696969''\<rparr>,
      Highlight = \<lparr>Light = ''#8b2def'', Dark = ''#8b2def''\<rparr>,
      Border = \<lparr>Light = ''#D9DCCF'', Dark = ''#383838''\<rparr>,
      Green = \<lparr>Light = ''#00FF00'', Dark = ''#00FF00''\<rparr>,
      Red = \<lparr>Light = ''#FF0000'', Dark = ''#FF0000''\<rparr>\<rparr>"

text \<open>
  A \<open>lipgloss.Style\<close>: the attributes that \<open>Update\<close>, \<open>progressBar\<close> and the list
  items of \<open>viewHeader\<close> set. \<open>NewStyle\<close> is the style with nothing set.
\<close>

record Style =
  foreground :: "AdaptiveColor option"
  background :: "AdaptiveColor option"
  alignRight :: bool

definition NewStyle :: Style where
  "NewStyle = \<lparr>foreground = None, background = None, alignRight = False\<rparr>"

definition Foreground :: "AdaptiveColor \<Rightarrow> Style \<Rightarrow> Style" where
  "Foreground c s = s\<lparr>foreground := Some c\<rparr>"

definition Background :: "AdaptiveColor \<Rightarrow> Style \<Rightarrow> Style" where
  "Background c s = s\<lparr>background := Some c\<rparr>"

definition AlignRight :: "Style \<Rightarrow> Style" where
  "AlignRight s = s\<lparr>alignRight := True\<rparr>"

text \<open>
  What the program takes from libraries, from the Go implementation and from a missing
  file:
  \<^item> the rendering of a string in a style (lipgloss);
  \<^item> the verb \<open>%.nf\<close> of \<open>fmt.Sprintf\<close>;
  \<^item> the helper \<open>convertBytes\<close> of this repository, which scales a byte count to a value
    and a unit;
  \<^item> the \<open>int\<close> that the conversion of a \<open>float64\<close> gives when the value is NaN, an
    infinity or outside the range of \<open>int\<close>: the language leaves it to the implementation
    (amd64 gives the least \<open>int\<close>);
  \<^item> the length of the longest string that the runtime can allocate.
\<close>

record Lib =
  Render :: "Style \<Rightarrow> string \<Rightarrow> string"
  fmtF :: "nat \<Rightarrow> float64 \<Rightarrow> string"
  convertBytes :: "64 word \<Rightarrow> string \<times> string"
  intOfUnrepresentable :: "float64 \<Rightarrow> int"
  maxLen :: nat

section \<open>The progress bar\<close>

text \<open>
  The two ways in which \<open>strings.Repeat\<close> does not return: the panic on a negative count,
  and a string too long to allocate (a panic or a fatal error of the runtime, depending on
  the length).
\<close>

datatype panic = NegativeRepeatCount | OutputTooLong

text \<open>
  The conversion \<open>int(x)\<close> of a \<open>float64\<close> drops the fraction (rounds toward zero) when the
  result is in the range of \<open>int\<close>.
\<close>

definition go_int :: "Lib \<Rightarrow> float64 \<Rightarrow> int" where
  "go_int lib x =
     (case x of
        Finite r \<Rightarrow>
          (let t = (if 0 \<le> r then \<lfloor>r\<rfloor> else \<lceil>r\<rceil>) in
           if - (2 ^ 63) \<le> t \<and> t < 2 ^ 63 then t else int64 (intOfUnrepresentable lib x))
      | _ \<Rightarrow> int64 (intOfUnrepresentable lib x))"

definition Repeat :: "Lib \<Rightarrow> string \<Rightarrow> int \<Rightarrow> panic + string" where
  "Repeat lib s cnt =
     (if cnt < 0 then Inl NegativeRepeatCount
      else if maxLen lib < length s * nat cnt then Inl OutputTooLong
      else Inr (concat (replicate (nat cnt) s)))"

definition totalBars :: int where
  "totalBars = 20"

text \<open>
  \<open>percentage / 100 * float64(totalBars)\<close>, where the conversion of 20 is exact, and its
  conversion to \<open>int\<close>.
\<close>

definition scaled :: "float64 \<Rightarrow> float64" where
  "scaled percentage = mul64 (div64 percentage (Finite 100)) (Finite (of_int totalBars))"

definition fillBars :: "Lib \<Rightarrow> float64 \<Rightarrow> int" where
  "fillBars lib percentage = go_int lib (scaled percentage)"

text \<open>
  \<open>progressBar\<close>: the filled part is built first, then the empty part, so a failure of the
  first \<open>strings.Repeat\<close> comes before the second is called.
\<close>

definition progressBar :: "Lib \<Rightarrow> float64 \<Rightarrow> Style \<Rightarrow> panic + string" where
  "progressBar lib percentage baseStyle =
     (case Repeat lib ''|'' (fillBars lib percentage) of
        Inl e \<Rightarrow> Inl e
      | Inr f \<Rightarrow>
          (let filled = Render lib (Foreground (Green Color) baseStyle) f in
           case Repeat lib ''|'' (int64 (totalBars - fillBars lib percentage)) of
             Inl e \<Rightarrow> Inl e
           | Inr e \<Rightarrow>
               (let empty = Render lib (Foreground (Secondary Color) baseStyle) e in
                Inr (Render lib baseStyle (''['' @ filled @ empty @ '']'')))))"

text \<open>
  A library for concrete evaluation: a string rendered in a style with a foreground colour
  is shown in braces after the colour, any other string as it is.
\<close>

definition plainRender :: "Style \<Rightarrow> string \<Rightarrow> string" where
  "plainRender s x =
     (case foreground s of None \<Rightarrow> x | Some c \<Rightarrow> ''{'' @ Dark c @ '' '' @ x @ ''}'')"

section \<open>The model and its update function\<close>

text \<open>
  \<open>table.Model\<close> of the bubbles library, reduced to what \<open>Update\<close> uses: the rows, the
  focus, the styles and the cursor, which \<open>MoveUp\<close> and \<open>MoveDown\<close> keep inside the rows.
  The viewport of the library is not modelled.
\<close>

record Styles =
  Selected :: Style

record table_Model =
  rows :: "string list list"
  focus :: bool
  cursor :: int
  styles :: Styles

definition clamp :: "int \<Rightarrow> int \<Rightarrow> int \<Rightarrow> int" where
  "clamp v low high = min (max v low) high"

definition Focused :: "table_Model \<Rightarrow> bool" where
  "Focused t = focus t"

definition Blur :: "table_Model \<Rightarrow> table_Model" where
  "Blur t = t\<lparr>focus := False\<rparr>"

definition Focus :: "table_Model \<Rightarrow> table_Model" where
  "Focus t = t\<lparr>focus := True\<rparr>"

definition SetStyles :: "Styles \<Rightarrow> table_Model \<Rightarrow> table_Model" where
  "SetStyles s t = t\<lparr>styles := s\<rparr>"

definition MoveUp :: "int \<Rightarrow> table_Model \<Rightarrow> table_Model" where
  "MoveUp n t = t\<lparr>cursor := clamp (cursor t - n) 0 (int (length (rows t)) - 1)\<rparr>"

definition MoveDown :: "int \<Rightarrow> table_Model \<Rightarrow> table_Model" where
  "MoveDown n t = t\<lparr>cursor := clamp (cursor t + n) 0 (int (length (rows t)) - 1)\<rparr>"

text \<open>
  \<open>SetRows\<close> as in bubbles v1.0.0: a cursor beyond the last of the new rows moves back to
  it (to -1 when there is no row). Earlier versions leave the cursor as it is.
\<close>

definition SetRows :: "string list list \<Rightarrow> table_Model \<Rightarrow> table_Model" where
  "SetRows r t =
     (if int (length r) - 1 < cursor t then t\<lparr>rows := r, cursor := int (length r) - 1\<rparr>
      else t\<lparr>rows := r\<rparr>)"

type_synonym time = int

record model =
  width :: int
  height :: int
  lastUpdate :: time
  processTable :: table_Model
  tableStyle :: Styles
  baseStyle :: Style
  viewStyle :: Style
  CpuUsage :: TimesStat
  MemUsage :: VirtualMemoryStat

datatype Msg =
  WindowSizeMsg (msgWidth: int) (msgHeight: int)
| KeyMsg string
| TickMsg time
| OtherMsg

text \<open>
  The commands \<open>Update\<close> returns: \<open>tea.Quit\<close>, or the command of \<open>tickEvery\<close>, which makes
  the runtime deliver one \<open>TickMsg\<close> at the next full second. \<open>None\<close> is the nil command.
\<close>

datatype Cmd = Quit | TickEvery

definition tickEvery :: Cmd where
  "tickEvery = TickEvery"

definition Init :: "model \<Rightarrow> Cmd" where
  "Init m = tickEvery"

text \<open>
  The stats provider. \<open>GetCPUStats\<close>, \<open>GetMEMStats\<close> and \<open>GetProcesses\<close> are functions of
  this repository whose file is missing from the sources; each returns a value and an
  error (\<open>None\<close> is the nil error). A \<open>Provider\<close> holds what the three calls of one
  sampling pass return.
\<close>

type_synonym error = string

record Provider =
  GetCPUStats :: "TimesStat \<times> error option"
  GetMEMStats :: "VirtualMemoryStat \<times> error option"
  GetProcesses :: "int \<Rightarrow> Process list \<times> error option"

text \<open>A record of \<open>slog.Error\<close>: the message and the error attached to it.\<close>

type_synonym log_entry = "string \<times> error"

text \<open>The verb \<open>%d\<close> of \<open>fmt.Sprintf\<close>.\<close>

fun digits :: "nat \<Rightarrow> string" where
  "digits n =
     (if n < 10 then [''0123456789'' ! n]
      else digits (n div 10) @ [''0123456789'' ! (n mod 10)])"

declare digits.simps [simp del]

definition fmtD :: "int \<Rightarrow> string" where
  "fmtD i = (if i < 0 then ''-'' @ digits (nat (- i)) else digits (nat i))"

text \<open>The table row that the loop over \<open>procs\<close> appends for one process.\<close>

definition processRow :: "Lib \<Rightarrow> Process \<Rightarrow> string list" where
  "processRow lib p =
     (let (memString, memUnit) = convertBytes lib (Memory p) in
      [fmtD (PID p),
       Name p,
       fmtF lib 2 (Finite (CPUPercent p)) @ ''%'',
       memString @ '' '' @ memUnit,
       Username p,
       RunningTime p])"

text \<open>
  The three reads of the \<open>TickMsg\<close> case, each with its own error check. They extend the
  log and change the model; none of them returns early.
\<close>

definition tickCPU :: "Provider \<Rightarrow> model \<times> log_entry list \<Rightarrow> model \<times> log_entry list" where
  "tickCPU prov = (\<lambda>(m, lg).
     (case GetCPUStats prov of
        (cpuStats, Some err) \<Rightarrow> (m, lg @ [(''Could not get CPU info'', err)])
      | (cpuStats, None) \<Rightarrow> (m\<lparr>CpuUsage := cpuStats\<rparr>, lg)))"

definition tickMEM :: "Provider \<Rightarrow> model \<times> log_entry list \<Rightarrow> model \<times> log_entry list" where
  "tickMEM prov = (\<lambda>(m, lg).
     (case GetMEMStats prov of
        (memStats, Some err) \<Rightarrow> (m, lg @ [(''Could not get memory info'', err)])
      | (memStats, None) \<Rightarrow> (m\<lparr>MemUsage := memStats\<rparr>, lg)))"

definition tickProcs ::
  "Lib \<Rightarrow> Provider \<Rightarrow> model \<times> log_entry list \<Rightarrow> model \<times> log_entry list" where
  "tickProcs lib prov = (\<lambda>(m, lg).
     (case GetProcesses prov 5 of
        (procs, Some err) \<Rightarrow> (m, lg @ [(''Could not get processes'', err)])
      | (procs, None) \<Rightarrow>
          (m\<lparr>processTable := SetRows (map (processRow lib) procs) (processTable m)\<rparr>, lg)))"

text \<open>
  \<open>Update\<close> returns the new model, the command and the records logged during the call.
\<close>

definition Update ::
  "Lib \<Rightarrow> Provider \<Rightarrow> Msg \<Rightarrow> model \<Rightarrow> model \<times> Cmd option \<times> log_entry list" where
  "Update lib prov msg m =
     (case msg of
        WindowSizeMsg w h \<Rightarrow> (m\<lparr>height := h, width := w\<rparr>, None, [])
      | KeyMsg k \<Rightarrow>
          (if k = ''esc'' then
             (if Focused (processTable m) then
                (let ts = (tableStyle m)\<lparr>Selected := baseStyle m\<rparr> in
                 (m\<lparr>tableStyle := ts, processTable := Blur (SetStyles ts (processTable m))\<rparr>,
                  None, []))
              else
                (let ts = (tableStyle m)
                       \<lparr>Selected := Background (Highlight Color) (Selected (tableStyle m))\<rparr> in
                 (m\<lparr>tableStyle := ts, processTable := Focus (SetStyles ts (processTable m))\<rparr>,
                  None, [])))
           else if k = ''up'' \<or> k = ''k'' then
             (if Focused (processTable m)
              then (m\<lparr>processTable := MoveUp 1 (processTable m)\<rparr>, None, [])
              else (m, None, []))
           else if k = ''down'' \<or> k = ''j'' then
             (if Focused (processTable m)
              then (m\<lparr>processTable := MoveDown 1 (processTable m)\<rparr>, None, [])
              else (m, None, []))
           else if k = ''q'' \<or> k = ''ctrl+c'' then (m, Some Quit, [])
           else (m, None, []))
      | TickMsg t \<Rightarrow>
          (let (m', lg) =
                 tickProcs lib prov (tickMEM prov (tickCPU prov (m\<lparr>lastUpdate := t\<rparr>, [])))
           in (m', Some tickEvery, lg))
      | OtherMsg \<Rightarrow> (m, None, []))"

section \<open>The header\<close>

text \<open>The helper \<open>listItem\<close> that \<open>viewHeader\<close> defines, with its optional suffix.\<close>

definition listItem :: "Lib \<Rightarrow> model \<Rightarrow> string \<Rightarrow> string \<Rightarrow> string list \<Rightarrow> string" where
  "listItem lib m key val suffix =
     (let finalSuffix = (case suffix of [] \<Rightarrow> [] | s # _ \<Rightarrow> s);
          listItemValue = Render lib (AlignRight (baseStyle m)) (val @ finalSuffix);
          listItemKey = Render lib (baseStyle m) (key @ '':'')
      in listItemKey @ '' '' @ listItemValue)"

text \<open>
  The item \<open>CPU\<close> of the list \<open>% Usage\<close> in \<open>viewHeader\<close>: the progress bar and the
  number are both made from \<open>100 - m.CpuUsage.Idle\<close>. A panic of \<open>progressBar\<close> is a
  panic of \<open>viewHeader\<close>.
\<close>

definition viewHeader_CPU :: "Lib \<Rightarrow> model \<Rightarrow> panic + string" where
  "viewHeader_CPU lib m =
     (case progressBar lib (sub64 (Finite 100) (Idle (CpuUsage m))) (baseStyle m) of
        Inl e \<Rightarrow> Inl e
      | Inr bar \<Rightarrow>
          Inr (listItem lib m ''CPU''
                 (bar @ '' '' @ fmtF lib 1 (sub64 (Finite 100) (Idle (CpuUsage m)))) [''%'']))"

text \<open>The item \<open>MEM\<close> of the same list.\<close>

definition viewHeader_MEM :: "Lib \<Rightarrow> model \<Rightarrow> panic + string" where
  "viewHeader_MEM lib m =
     (case progressBar lib (UsedPercent (MemUsage m)) (baseStyle m) of
        Inl e \<Rightarrow> Inl e
      | Inr bar \<Rightarrow>
          Inr (listItem lib m ''MEM'' (bar @ '' '' @ fmtF lib 1 (UsedPercent (MemUsage m))) [''%'']))"

section \<open>The event loop of the terminal frontend\<close>

text \<open>
  The Bubble Tea runtime calls \<open>Update\<close> for one message at a time, on one goroutine, and
  runs the command it returns. The command of \<open>tea.Every\<close> delivers a single \<open>TickMsg\<close>;
  a \<open>TickMsg\<close> comes from nowhere else. The state of the loop is the model, the number of
  tick commands that have not delivered their message yet, and whether \<open>tea.Quit\<close> was
  returned. The loop starts with the command of \<open>Init\<close>.
\<close>

record tui_state =
  tuiModel :: model
  pendingTicks :: nat
  quitting :: bool

definition ticksOf :: "Cmd option \<Rightarrow> nat" where
  "ticksOf c = (if c = Some TickEvery then 1 else 0)"

definition tui_init :: "model \<Rightarrow> tui_state" where
  "tui_init m = \<lparr>tuiModel = m, pendingTicks = ticksOf (Some (Init m)), quitting = False\<rparr>"

definition isTick :: "Msg \<Rightarrow> bool" where
  "isTick msg = (case msg of TickMsg t \<Rightarrow> True | _ \<Rightarrow> False)"

text \<open>
  The loop handles one message, with the answers the stats provider would give during that
  call. A \<open>TickMsg\<close> can only be delivered for a pending tick command, and nothing is
  delivered after \<open>tea.Quit\<close>; \<open>None\<close> says that the message cannot arrive in this state.
\<close>

definition tui_deliver :: "Lib \<Rightarrow> Provider \<times> Msg \<Rightarrow> tui_state \<Rightarrow> tui_state option" where
  "tui_deliver lib = (\<lambda>(prov, msg) s.
     if quitting s \<or> (isTick msg \<and> pendingTicks s = 0) then None
     else
       (case Update lib prov msg (tuiModel s) of
          (m', cmd, lg) \<Rightarrow>
            Some \<lparr>tuiModel = m',
                  pendingTicks = pendingTicks s - (if isTick msg then 1 else 0) + ticksOf cmd,
                  quitting = (cmd = Some Quit)\<rparr>))"

fun tui_run :: "Lib \<Rightarrow> (Provider \<times> Msg) list \<Rightarrow> tui_state \<Rightarrow> tui_state option" where
  "tui_run lib [] s = Some s"
| "tui_run lib (e # es) s =
     (case tui_deliver lib e s of None \<Rightarrow> None | Some s' \<Rightarrow> tui_run lib es s')"

section \<open>The headless reporter\<close>

text \<open>
  One iteration of the loop of \<open>printSystemInfo\<close>: the three reads, whose errors are
  dropped, then three lines on standard output.
\<close>

datatype printed =
  LineCPU TimesStat
| LineMEM VirtualMemoryStat
| LineProcs "Process list"
| LineStop

definition printPass :: "Provider \<Rightarrow> printed list" where
  "printPass prov =
     (let (cpuUsage, _) = GetCPUStats prov;
          (memoryUsage, _) = GetMEMStats prov;
          (runningProcesses, _) = GetProcesses prov 10
      in [LineCPU cpuUsage, LineMEM memoryUsage, LineProcs runningProcesses])"

text \<open>\<open>printSystemInfo\<close> on the ticks it receives, one provider answer for each.\<close>

definition printSystemInfo :: "Provider list \<Rightarrow> printed list" where
  "printSystemInfo provs = concat (map printPass provs)"

text \<open>
  \<open>main\<close> and the goroutine it starts, as an interleaving of their steps.

  The main goroutine is at the \<open>select\<close> (\<open>MSelect\<close>), blocked in the send on the
  unbuffered \<open>printChan\<close> (\<open>MSend\<close>), in \<open>wg.Wait\<close> after it has printed the stop line and
  closed \<open>printChan\<close> (\<open>MWait\<close>), or it has returned (\<open>MExited\<close>). The printing goroutine is
  blocked in the receive of \<open>for range printChan\<close> (\<open>PRange\<close>), about to print the first,
  second or third line of a pass, or it has left the loop and run \<open>wg.Done\<close> (\<open>PDone\<close>).

  \<open>ticker.C\<close> and \<open>stopChan\<close> are channels of capacity one whose senders (the runtime's
  timer, \<open>signal.Notify\<close>) never block: a value that finds the buffer full is dropped.
  The three reads of a pass are taken to return.
\<close>

datatype main_pc = MSelect | MSend | MWait | MExited

datatype printer_pc = PRange | PPrintCPU | PPrintMEM | PPrintProcs | PDone

record headless =
  mainPc :: main_pc
  printerPc :: printer_pc
  tickBuf :: nat
  stopBuf :: nat
  closed :: bool
  tickerStopped :: bool
  cur :: "Provider option"
  passesStarted :: nat
  passesFinished :: nat
  finished :: "Provider list"
  stdout :: "printed list"
  exitCode :: "int option"

definition headless_init :: headless where
  "headless_init =
     \<lparr>mainPc = MSelect, printerPc = PRange, tickBuf = 0, stopBuf = 0, closed = False,
      tickerStopped = False, cur = None, passesStarted = 0, passesFinished = 0,
      finished = [], stdout = [], exitCode = None\<rparr>"

text \<open>
  The steps. Two belong to the environment: the ticker fires, a signal arrives. The others
  belong to the program:
  \<^item> \<open>TakeTick\<close>: the \<open>select\<close> receives from \<open>ticker.C\<close>;
  \<^item> \<open>SendTick prov\<close>: the rendezvous on \<open>printChan\<close>, the send of \<open>main\<close> together with
    the receive of the loop; the pass starts with its three reads, whose answer is \<open>prov\<close>;
  \<^item> \<open>PrintCPU\<close>, \<open>PrintMEM\<close>, \<open>PrintProcs\<close>: the three \<open>fmt.Println\<close> of the pass;
  \<^item> \<open>TakeStop\<close>: the \<open>select\<close> receives from \<open>stopChan\<close>, prints the stop line and
    closes \<open>printChan\<close>;
  \<^item> \<open>LeaveLoop\<close>: the loop finds \<open>printChan\<close> closed, \<open>printSystemInfo\<close> returns and
    \<open>wg.Done\<close> runs;
  \<^item> \<open>MainReturns\<close>: \<open>wg.Wait\<close> returns, then \<open>main\<close>, which stops the ticker (deferred)
    and ends the process with exit code 0.
\<close>

datatype action =
  TickFires | SignalArrives
| TakeTick | SendTick Provider | PrintCPU | PrintMEM | PrintProcs
| TakeStop | LeaveLoop | MainReturns

text \<open>\<open>fire a s\<close> is the state after step \<open>a\<close>, or \<open>None\<close> when \<open>a\<close> cannot happen in \<open>s\<close>.\<close>

fun fire :: "action \<Rightarrow> headless \<Rightarrow> headless option" where
  "fire TickFires s =
     (if tickerStopped s then None else Some (s\<lparr>tickBuf := min 1 (tickBuf s + 1)\<rparr>))"
| "fire SignalArrives s =
     (if mainPc s = MExited then None else Some (s\<lparr>stopBuf := min 1 (stopBuf s + 1)\<rparr>))"
| "fire TakeTick s =
     (if mainPc s = MSelect \<and> 0 < tickBuf s
      then Some (s\<lparr>mainPc := MSend, tickBuf := tickBuf s - 1\<rparr>) else None)"
| "fire (SendTick prov) s =
     (if mainPc s = MSend \<and> printerPc s = PRange \<and> \<not> closed s
      then Some (s\<lparr>mainPc := MSelect, printerPc := PPrintCPU, cur := Some prov,
                    passesStarted := passesStarted s + 1\<rparr>)
      else None)"
| "fire PrintCPU s =
     (case cur s of
        Some prov \<Rightarrow>
          (if printerPc s = PPrintCPU
           then Some (s\<lparr>printerPc := PPrintMEM, stdout := stdout s @ [printPass prov ! 0]\<rparr>)
           else None)
      | None \<Rightarrow> None)"
| "fire PrintMEM s =
     (case cur s of
        Some prov \<Rightarrow>
          (if printerPc s = PPrintMEM
           then Some (s\<lparr>printerPc := PPrintProcs, stdout := stdout s @ [printPass prov ! 1]\<rparr>)
           else None)
      | None \<Rightarrow> None)"
| "fire PrintProcs s =
     (case cur s of
        Some prov \<Rightarrow>
          (if printerPc s = PPrintProcs
           then Some (s\<lparr>printerPc := PRange, stdout := stdout s @ [printPass prov ! 2],
                         cur := None, passesFinished := passesFinished s + 1,
                         finished := finished s @ [prov]\<rparr>)
           else None)
      | None \<Rightarrow> None)"
| "fire TakeStop s =
     (if mainPc s = MSelect \<and> 0 < stopBuf s
      then Some (s\<lparr>mainPc := MWait, stopBuf := stopBuf s - 1, closed := True,
                    stdout := stdout s @ [LineStop]\<rparr>)
      else None)"
| "fire LeaveLoop s =
     (if printerPc s = PRange \<and> closed s then Some (s\<lparr>printerPc := PDone\<rparr>) else None)"
| "fire MainReturns s =
     (if mainPc s = MWait \<and> printerPc s = PDone
      then Some (s\<lparr>mainPc := MExited, tickerStopped := True, exitCode := Some 0\<rparr>)
      else None)"

definition isEnv :: "action \<Rightarrow> bool" where
  "isEnv a = (a = TickFires \<or> a = SignalArrives)"

fun run :: "action list \<Rightarrow> headless \<Rightarrow> headless option" where
  "run [] s = Some s"
| "run (a # as) s = (case fire a s of None \<Rightarrow> None | Some s' \<Rightarrow> run as s')"

text \<open>The states that a run of the program from its start can be in.\<close>

definition reachable :: "headless \<Rightarrow> bool" where
  "reachable s = (\<exists>as. run as headless_init = Some s)"

text \<open>The lines of the pass in flight that are already on standard output.\<close>

fun linesPrinted :: "printer_pc \<Rightarrow> Provider option \<Rightarrow> printed list" where
  "linesPrinted PPrintMEM (Some prov) = take 1 (printPass prov)"
| "linesPrinted PPrintProcs (Some prov) = take 2 (printPass prov)"
| "linesPrinted _ _ = []"

definition partialPass :: "headless \<Rightarrow> printed list" where
  "partialPass s = linesPrinted (printerPc s) (cur s)"

definition inFlight :: "headless \<Rightarrow> nat" where
  "inFlight s = (if printerPc s \<in> {PPrintCPU, PPrintMEM, PPrintProcs} then 1 else 0)"

text \<open>The ticks that wait for a pass: in the buffer of \<open>ticker.C\<close>, or held by the send.\<close>

definition queuedTicks :: "headless \<Rightarrow> nat" where
  "queuedTicks s = tickBuf s + (if mainPc s = MSend then 1 else 0)"

text \<open>
  Program steps left until \<open>main\<close> has returned, once \<open>printChan\<close> is closed.
\<close>

definition stepsToExit :: "headless \<Rightarrow> nat" where
  "stepsToExit s =
     (case mainPc s of
        MExited \<Rightarrow> 0
      | _ \<Rightarrow>
        (case printerPc s of
           PPrintCPU \<Rightarrow> 5
         | PPrintMEM \<Rightarrow> 4
         | PPrintProcs \<Rightarrow> 3
         | PRange \<Rightarrow> 2
         | PDone \<Rightarrow> 1))"

text \<open>What holds in every state of a run; the properties of shutdown follow from it.\<close>

definition consistent :: "headless \<Rightarrow> bool" where
  "consistent s =
     (tickBuf s \<le> 1 \<and> stopBuf s \<le> 1 \<and>
      passesStarted s = passesFinished s + inFlight s \<and>
      length (finished s) = passesFinished s \<and>
      closed s = (mainPc s = MWait \<or> mainPc s = MExited) \<and>
      (printerPc s = PDone \<longrightarrow> closed s) \<and>
      (mainPc s = MExited) = (printerPc s = PDone \<and> exitCode s = Some 0) \<and>
      (mainPc s = MExited) = tickerStopped s \<and>
      (mainPc s \<noteq> MExited \<longrightarrow> exitCode s = None) \<and>
      (cur s = None) = (printerPc s = PRange \<or> printerPc s = PDone) \<and>
      filter (\<lambda>l. l \<noteq> LineStop) (stdout s) = printSystemInfo (finished s) @ partialPass s)"

section \<open>The Delta Engine and the Ranker\<close>

text \<open>
  \<open>GetProcesses\<close> is called by both frontends; its definition is missing from the
  sources. The definitions of this section follow the specification of what stands behind
  it.
\<close>

text \<open>
  Modelled from the spec: the type RawProcessRecord (section 3), which the platform stats
  provider supplies and whose declaration is missing: pid, name, owning user, cumulative CPU
  time since process start, process start time, resident memory. Times are in seconds.
\<close>

record RawProcessRecord =
  rawPid :: int
  rawName :: string
  rawOwner :: string
  cumulativeCpuTime :: real
  startTime :: real
  residentMemory :: "64 word"

text \<open>
  Modelled from the spec: the prior-sample table (section 3), missing from the sources: a
  mapping from pid to its last-seen RawProcessRecord and observation timestamp.
\<close>

type_synonym prior_table = "int \<rightharpoonup> (RawProcessRecord \<times> real)"

text \<open>
  Modelled from the spec: the one way a pass of the Delta Engine could go wrong (section 4.2,
  numeric edge case), missing from the sources.
\<close>

datatype engine_error = DivisorNotPositive

text \<open>
  Modelled from the spec: the division of the Delta Engine (section 4.2), missing from the
  sources. A division whose divisor is zero or negative is an error of the engine, so that
  a pass that performs one is visible as such.
\<close>

definition divideBy :: "real \<Rightarrow> real \<Rightarrow> engine_error + real" where
  "divideBy a b = (if b \<le> 0 then Inl DivisorNotPositive else Inr (a / b))"

text \<open>
  Modelled from the spec: the CPU percentage of one current record (section 4.2), missing
  from the sources. With no prior observation of the pid the percentage is 0; with an elapsed
  time that is zero or negative it is 0; otherwise it is the difference of the cumulative
  CPU times over the difference of the timestamps, scaled to a percentage, not clamped.
\<close>

definition cpuPercent :: "prior_table \<Rightarrow> real \<Rightarrow> RawProcessRecord \<Rightarrow> engine_error + real" where
  "cpuPercent prior now r =
     (case prior (rawPid r) of
        None \<Rightarrow> Inr 0
      | Some (r0, t0) \<Rightarrow>
          (if now - t0 \<le> 0 then Inr 0
           else (case divideBy (cumulativeCpuTime r - cumulativeCpuTime r0) (now - t0) of
                   Inl e \<Rightarrow> Inl e
                 | Inr q \<Rightarrow> Inr (100 * q))))"

text \<open>
  Modelled from the spec: the ProcessUsage emitted for one current record (sections 3 and
  4.2), missing from the sources. A ProcessUsage is the \<open>Process\<close> that \<open>GetProcesses\<close> returns;
  its running time is the elapsed wall time since the start of the process, formatted by the
  duration helper \<open>fmtDuration\<close>, which is missing too and is a parameter.
\<close>

definition emitUsage ::
  "(real \<Rightarrow> string) \<Rightarrow> prior_table \<Rightarrow> real \<Rightarrow> RawProcessRecord \<Rightarrow> engine_error + Process" where
  "emitUsage fmtDuration prior now r =
     (case cpuPercent prior now r of
        Inl e \<Rightarrow> Inl e
      | Inr pct \<Rightarrow>
          Inr \<lparr>PID = rawPid r, Name = rawName r, CPUPercent = pct,
               Memory = residentMemory r, Username = rawOwner r,
               RunningTime = fmtDuration (now - startTime r)\<rparr>)"

text \<open>
  Modelled from the spec: the loop of the Delta Engine over the current records (section
  4.2), missing from the sources; it stops at the first error.
\<close>

fun emitAll ::
  "(real \<Rightarrow> string) \<Rightarrow> prior_table \<Rightarrow> real \<Rightarrow> RawProcessRecord list \<Rightarrow>
   engine_error + Process list" where
  "emitAll fmtDuration prior now [] = Inr []"
| "emitAll fmtDuration prior now (r # rs) =
     (case emitUsage fmtDuration prior now r of
        Inl e \<Rightarrow> Inl e
      | Inr u \<Rightarrow>
          (case emitAll fmtDuration prior now rs of
             Inl e \<Rightarrow> Inl e
           | Inr us \<Rightarrow> Inr (u # us)))"

text \<open>
  Modelled from the spec: recording the current observations (section 4.2), missing from
  the sources. The new table is built from the current records alone.
\<close>

fun observeAll :: "real \<Rightarrow> RawProcessRecord list \<Rightarrow> prior_table \<Rightarrow> prior_table" where
  "observeAll now [] tbl = tbl"
| "observeAll now (r # rs) tbl = observeAll now rs (tbl(rawPid r \<mapsto> (r, now)))"

text \<open>
  Modelled from the spec: one pass of the Delta Engine (section 4.2), missing from the
  sources: the usages of the current records against the prior table, and the table that
  replaces it.
\<close>

definition deltaPass ::
  "(real \<Rightarrow> string) \<Rightarrow> prior_table \<Rightarrow> real \<Rightarrow> RawProcessRecord list \<Rightarrow>
   engine_error + (Process list \<times> prior_table)" where
  "deltaPass fmtDuration prior now rs =
     (case emitAll fmtDuration prior now rs of
        Inl e \<Rightarrow> Inl e
      | Inr us \<Rightarrow> Inr (us, observeAll now rs Map.empty))"

text \<open>
  Modelled from the spec: the Delta Engine over a sequence of sampling passes, each a
  timestamp and a raw process list; the result is the table after the last pass.
\<close>

fun deltaRun ::
  "(real \<Rightarrow> string) \<Rightarrow> prior_table \<Rightarrow> (real \<times> RawProcessRecord list) list \<Rightarrow>
   engine_error + prior_table" where
  "deltaRun fmtDuration tbl [] = Inr tbl"
| "deltaRun fmtDuration tbl ((now, rs) # passes) =
     (case deltaPass fmtDuration tbl now rs of
        Inl e \<Rightarrow> Inl e
      | Inr (us, tbl') \<Rightarrow> deltaRun fmtDuration tbl' passes)"

text \<open>
  Modelled from the spec: the order of the Ranker (section 4.3), missing from the sources:
  descending cpuPercent, ties broken by ascending pid.
\<close>

definition ranksBefore :: "Process \<Rightarrow> Process \<Rightarrow> bool" where
  "ranksBefore a b =
     (CPUPercent b < CPUPercent a \<or> (CPUPercent a = CPUPercent b \<and> PID a \<le> PID b))"

text \<open>
  Modelled from the spec: the sort of the Ranker (section 4.3), missing from the sources,
  as an insertion sort by \<open>ranksBefore\<close>; here the insertion of one usage into a sorted
  list.
\<close>

fun insertRanked :: "Process \<Rightarrow> Process list \<Rightarrow> Process list" where
  "insertRanked u [] = [u]"
| "insertRanked u (v # vs) = (if ranksBefore u v then u # v # vs else v # insertRanked u vs)"

text \<open>
  Modelled from the spec: the sorted usages (section 4.3), missing from the sources: every
  usage inserted at its place.
\<close>

fun sortRanked :: "Process list \<Rightarrow> Process list" where
  "sortRanked [] = []"
| "sortRanked (u # us) = insertRanked u (sortRanked us)"

text \<open>
  Modelled from the spec: \<open>Rank(usages, N)\<close> (section 4.3), missing from the sources: the
  first N entries of the sorted usages.
\<close>

definition Rank :: "Process list \<Rightarrow> nat \<Rightarrow> Process list" where
  "Rank usages N = take N (sortRanked usages)"

section \<open>Concrete data for evaluation\<close>

text \<open>
  A library and an implementation for concrete evaluation: \<open>%.nf\<close> rounds the value to \<open>n\<close>
  decimals, a tie going to the even digit; \<open>convertBytes\<close> gives the plain number of bytes;
  a conversion to \<open>int\<close> that cannot represent the value gives the least \<open>int\<close>, as amd64
  does; strings of up to \<open>2^32\<close> bytes can be allocated.
\<close>

definition plainFmtF :: "nat \<Rightarrow> float64 \<Rightarrow> string" where
  "plainFmtF n x =
     (case x of
        NaN \<Rightarrow> ''NaN''
      | PlusInf \<Rightarrow> ''+Inf''
      | MinusInf \<Rightarrow> ''-Inf''
      | Finite r \<Rightarrow>
          (let s = rne (\<bar>r\<bar> * 10 ^ n);
               ip = digits (nat (s div 10 ^ n));
               fp = digits (nat (s mod 10 ^ n))
           in (if r < 0 then ''-'' else []) @ ip @
              (if n = 0 then [] else ''.'' @ replicate (n - length fp) CHR ''0'' @ fp)))"

definition plainLib :: Lib where
  "plainLib =
     \<lparr>Render = plainRender, fmtF = plainFmtF, convertBytes = (\<lambda>b. (fmtD (uint b), ''B'')),
      intOfUnrepresentable = (\<lambda>x. - (2 ^ 63)), maxLen = 2 ^ 32\<rparr>"

definition zeroCPU :: TimesStat where
  "zeroCPU = \<lparr>User = Finite 0, System = Finite 0, Idle = Finite 0, Nice = Finite 0,
              Iowait = Finite 0, Irq = Finite 0, Softirq = Finite 0, Steal = Finite 0,
              Guest = Finite 0\<rparr>"

definition zeroMEM :: VirtualMemoryStat where
  "zeroMEM = \<lparr>Total = 0, Used = 0, Available = 0, Active = 0, Buffers = 0, Cached = 0,
              UsedPercent = Finite 0\<rparr>"

text \<open>The model that \<open>main\<close> builds, with an empty table that has the focus.\<close>

definition m0 :: model where
  "m0 =
     \<lparr>width = 0, height = 0, lastUpdate = 0,
      processTable =
        \<lparr>rows = [], focus = True, cursor = 0,
         styles = \<lparr>Selected = Background (Highlight Color) NewStyle\<rparr>\<rparr>,
      tableStyle = \<lparr>Selected = Background (Highlight Color) NewStyle\<rparr>,
      baseStyle = NewStyle, viewStyle = NewStyle,
      CpuUsage = zeroCPU, MemUsage = zeroMEM\<rparr>"

definition procA :: Process where
  "procA = \<lparr>PID = 42, Name = ''init'', CPUPercent = 20, Memory = 4096, Username = ''root'',
            RunningTime = ''2s''\<rparr>"

definition procB :: Process where
  "procB = \<lparr>PID = 7, Name = ''sh'', CPUPercent = 20, Memory = 512, Username = ''root'',
            RunningTime = ''1s''\<rparr>"

definition procC :: Process where
  "procC = \<lparr>PID = 99, Name = ''cc'', CPUPercent = 300, Memory = 1024, Username = ''dev'',
            RunningTime = ''9s''\<rparr>"

text \<open>
  Answers of the stats provider: all three reads succeed; the CPU read fails and returns the
  zero value with its error; the CPU read succeeds and returns what \<open>m0\<close> already holds; the
  memory read fails.
\<close>

definition provOk :: Provider where
  "provOk =
     \<lparr>GetCPUStats = (zeroCPU\<lparr>Idle := Finite 70\<rparr>, None),
      GetMEMStats = (zeroMEM\<lparr>UsedPercent := Finite 50\<rparr>, None),
      GetProcesses = (\<lambda>n. ([procC, procB, procA], None))\<rparr>"

definition provCpuFails :: Provider where
  "provCpuFails = provOk\<lparr>GetCPUStats := (zeroCPU, Some ''no cpu'')\<rparr>"

definition provCpuSame :: Provider where
  "provCpuSame = provOk\<lparr>GetCPUStats := (CpuUsage m0, None)\<rparr>"

definition provMemFails :: Provider where
  "provMemFails = provOk\<lparr>GetMEMStats := (zeroMEM, Some ''no mem'')\<rparr>"

definition provProcsFail :: Provider where
  "provProcsFail = provOk\<lparr>GetProcesses := (\<lambda>n. ([], Some ''no procs''))\<rparr>"

text \<open>The model after a first pass whose three reads succeed.\<close>

definition m1 :: model where
  "m1 = fst (Update plainLib provOk (TickMsg 1) m0)"

definition rawA :: RawProcessRecord where
  "rawA = \<lparr>rawPid = 42, rawName = ''init'', rawOwner = ''root'', cumulativeCpuTime = 10,
           startTime = 0, residentMemory = 4096\<rparr>"

definition rawB :: RawProcessRecord where
  "rawB = \<lparr>rawPid = 7, rawName = ''sh'', rawOwner = ''root'', cumulativeCpuTime = 1,
           startTime = 0, residentMemory = 512\<rparr>"

text \<open>A stand-in for the duration helper: whole seconds.\<close>

definition plainDuration :: "real \<Rightarrow> string" where
  "plainDuration d = fmtD \<lfloor>d\<rfloor> @ ''s''"

text \<open>
  Two runs of the headless reporter. In the first \<open>main\<close> hands a tick over
  (\<open>handoverState\<close> is the state before) and a pass is in flight while three more ticks
  fire (\<open>busyState\<close>). In the second a signal arrives during a pass: \<open>main\<close> takes it after
  the first line of the pass (from \<open>preStopState\<close> to \<open>midState\<close>), and the run goes on until
  \<open>main\<close> has returned (\<open>exitState\<close>).
\<close>

definition busyTrace :: "action list" where
  "busyTrace = [TickFires, TakeTick, SendTick provOk, TickFires, TakeTick, TickFires, TickFires]"

definition busyState :: headless where
  "busyState =
     \<lparr>mainPc = MSend, printerPc = PPrintCPU, tickBuf = 1, stopBuf = 0, closed = False,
      tickerStopped = False, cur = Some provOk, passesStarted = 1, passesFinished = 0,
      finished = [], stdout = [], exitCode = None\<rparr>"

definition stopTrace :: "action list" where
  "stopTrace = [TickFires, TakeTick, SendTick provOk, SignalArrives, PrintCPU, TakeStop]"

definition midState :: headless where
  "midState =
     \<lparr>mainPc = MWait, printerPc = PPrintMEM, tickBuf = 0, stopBuf = 0, closed = True,
      tickerStopped = False, cur = Some provOk, passesStarted = 1, passesFinished = 0,
      finished = [], stdout = [LineCPU (zeroCPU\<lparr>Idle := Finite 70\<rparr>), LineStop],
      exitCode = None\<rparr>"

definition exitTrace :: "action list" where
  "exitTrace = [TickFires, PrintMEM, PrintProcs, LeaveLoop, MainReturns]"

definition exitState :: headless where
  "exitState =
     \<lparr>mainPc = MExited, printerPc = PDone, tickBuf = 1, stopBuf = 0, closed = True,
      tickerStopped = True, cur = None, passesStarted = 1, passesFinished = 1,
      finished = [provOk],
      stdout = [LineCPU (zeroCPU\<lparr>Idle := Finite 70\<rparr>), LineStop,
                LineMEM (zeroMEM\<lparr>UsedPercent := Finite 50\<rparr>), LineProcs [procC, procB, procA]],
      exitCode = Some 0\<rparr>"

definition handoverState :: headless where
  "handoverState = headless_init\<lparr>mainPc := MSend\<rparr>"

definition preStopState :: headless where
  "preStopState = midState\<lparr>mainPc := MSelect, stopBuf := 1, closed := False,
                           stdout := [LineCPU (zeroCPU\<lparr>Idle := Finite 70\<rparr>)]\<rparr>"

text \<open>
  A third run: a tick is pending when the signal arrives (\<open>signalledState\<close>), and the
  \<open>select\<close> of \<open>main\<close> takes the tick first (\<open>lateState\<close>).
\<close>

definition signalledState :: headless where
  "signalledState = headless_init\<lparr>tickBuf := 1, stopBuf := 1\<rparr>"

definition lateState :: headless where
  "lateState =
     headless_init\<lparr>stopBuf := 1, printerPc := PPrintCPU, cur := Some provOk,
                    passesStarted := 1\<rparr>"

text \<open>Messages for the event loop of the terminal frontend.\<close>

definition tuiTrace :: "(Provider \<times> Msg) list" where
  "tuiTrace =
     [(provOk, TickMsg 1), (provOk, KeyMsg ''k''), (provOk, WindowSizeMsg 80 24),
      (provCpuFails, TickMsg 2)]"

section \<open>Properties of the floating-point numbers\<close>

text \<open>
  Rounding is monotone, leaves the 53-digit numbers unchanged and moves a number by at most
  half the spacing around it. These facts carry the bounds of the progress bar through the
  two roundings of \<open>percentage / 100 * float64(totalBars)\<close>.
\<close>

lemma rne_of_int [simp]: "rne (of_int n) = n"
  by (simp add: rne_def)

lemma rne_cases: "rne y = \<lfloor>y\<rfloor> \<or> rne y = \<lfloor>y\<rfloor> + 1"
  by (simp add: rne_def Let_def)

lemma rne_ge_floor: "\<lfloor>y\<rfloor> \<le> rne y"
  using rne_cases [of y] by auto

lemma rne_le_floor1: "rne y \<le> \<lfloor>y\<rfloor> + 1"
  using rne_cases [of y] by auto

lemma rne_mono: assumes "x \<le> y" shows "rne x \<le> rne y"
proof (cases "\<lfloor>x\<rfloor> = \<lfloor>y\<rfloor>")
  case True
  have "x - of_int \<lfloor>y\<rfloor> \<le> y - of_int \<lfloor>y\<rfloor>" using assms by simp
  then show ?thesis using True by (auto simp: rne_def Let_def)
next
  case False
  have "\<lfloor>x\<rfloor> \<le> \<lfloor>y\<rfloor>" using assms by (rule floor_mono)
  with False have "\<lfloor>x\<rfloor> + 1 \<le> \<lfloor>y\<rfloor>" by simp
  then show ?thesis using rne_le_floor1 [of x] rne_ge_floor [of y] by linarith
qed

lemma rne_ge_int: "of_int n \<le> y \<Longrightarrow> n \<le> rne y"
  using rne_mono [of "of_int n" y] by simp

lemma rne_le_int: "y \<le> of_int n \<Longrightarrow> rne y \<le> n"
  using rne_mono [of y "of_int n"] by simp

lemma expoUp_bounds:
  "1 \<le> a \<Longrightarrow> a < 2 ^ (Suc n) \<Longrightarrow>
   0 \<le> expoUp n a \<and> expoUp n a \<le> int n \<and> 2 powi (expoUp n a) \<le> a \<and> a < 2 powi (expoUp n a + 1)"
proof (induction n arbitrary: a)
  case 0
  then show ?case by simp
next
  case (Suc n)
  show ?case
  proof (cases "a < 2")
    case True
    then show ?thesis using Suc.prems by simp
  next
    case False
    then have "1 \<le> a / 2" "a / 2 < 2 ^ Suc n" using Suc.prems by simp_all
    from Suc.IH [OF this] False show ?thesis
      by (simp add: power_int_add field_simps)
  qed
qed

lemma powi2_Suc: "(2::real) powi (k + 1) = 2 * 2 powi k"
  by (simp add: power_int_add)

lemma powi2_pos [simp]: "0 < (2::real) powi k"
  by (simp add: zero_less_power_int)

lemma powi2_less_cancel: "(2::real) powi m < 2 powi n \<Longrightarrow> m < n"
proof (rule ccontr)
  assume a: "(2::real) powi m < 2 powi n" and "\<not> m < n"
  then have "n \<le> m" by simp
  then have "(2::real) powi n \<le> 2 powi m" by (intro power_int_increasing) simp_all
  with a show False by simp
qed

lemma powi2_le_one: "k \<le> 0 \<Longrightarrow> (2::real) powi k \<le> 1"
  using power_int_increasing [of k 0 "2::real"] by simp

lemma powi2_neg_Suc: "2 * (2::real) powi (- int (Suc n)) = 2 powi (- int n)"
  using powi2_Suc [of "- int (Suc n)"] by simp

lemma expoUp_sat: "2 ^ n \<le> a \<Longrightarrow> expoUp n a = int n"
proof (induction n arbitrary: a)
  case 0
  then show ?case by simp
next
  case (Suc n)
  then have h: "2 * 2 ^ n \<le> a" by simp
  have "(1::real) \<le> 2 ^ n" by simp
  with h have "\<not> a < 2" by linarith
  moreover have "2 ^ n \<le> a / 2" using h by simp
  ultimately show ?case using Suc.IH [of "a / 2"] by simp
qed

lemma expoDown_ge1: "1 \<le> a \<Longrightarrow> expoDown n a = 0"
  by (cases n) simp_all

lemma expoDown_bounds:
  "2 powi (- int n) \<le> a \<Longrightarrow> a < 1 \<Longrightarrow>
   - int n \<le> expoDown n a \<and> expoDown n a < 0 \<and>
   2 powi (expoDown n a) \<le> a \<and> a < 2 powi (expoDown n a + 1)"
proof (induction n arbitrary: a)
  case 0
  then show ?case by simp
next
  case (Suc n)
  show ?case
  proof (cases "1 \<le> 2 * a")
    case True
    then have "expoDown (Suc n) a = - 1" using Suc.prems by (simp add: expoDown_ge1)
    then show ?thesis using True Suc.prems by (simp add: power_int_minus field_simps)
  next
    case False
    have "2 powi (- int n) \<le> 2 * a" using Suc.prems(1) powi2_neg_Suc [of n] by linarith
    from Suc.IH [OF this] False Suc.prems(2)
    have ih: "- int n \<le> expoDown n (2 * a)" "expoDown n (2 * a) < 0"
      "2 powi (expoDown n (2 * a)) \<le> 2 * a" "2 * a < 2 powi (expoDown n (2 * a) + 1)"
      by simp_all
    have e: "expoDown (Suc n) a = expoDown n (2 * a) - 1" using Suc.prems(2) by simp
    have p1: "(2::real) powi (expoDown n (2 * a)) = 2 * 2 powi (expoDown n (2 * a) - 1)"
      by (simp add: power_int_diff)
    have p2: "(2::real) powi (expoDown n (2 * a) + 1) = 2 * 2 powi (expoDown n (2 * a))"
      by (simp add: power_int_add)
    show ?thesis unfolding e using ih p1 p2 by simp
  qed
qed

lemma expoDown_sat: "0 \<le> a \<Longrightarrow> a < 2 powi (- int n) \<Longrightarrow> expoDown n a = - int n"
proof (induction n arbitrary: a)
  case 0
  then show ?case by simp
next
  case (Suc n)
  have l: "2 * a < 2 powi (- int n)" using Suc.prems(2) powi2_neg_Suc [of n] by linarith
  have "(2::real) powi (- int (Suc n)) \<le> 1"
    by (rule powi2_le_one) simp
  then have "a < 1" using Suc.prems(2) by linarith
  then show ?case using Suc.IH [of "2 * a"] l Suc.prems(1) by simp
qed

lemma expo_range: "- 1022 \<le> expo x \<and> expo x \<le> 1024"
proof (cases "1 \<le> \<bar>x\<bar>")
  case True
  show ?thesis
  proof (cases "\<bar>x\<bar> < 2 ^ Suc 1024")
    case True
    from expoUp_bounds [OF \<open>1 \<le> \<bar>x\<bar>\<close> True] \<open>1 \<le> \<bar>x\<bar>\<close> show ?thesis by (simp add: expo_def)
  next
    case False
    then have "(2::real) ^ 1024 \<le> \<bar>x\<bar>" by simp
    from expoUp_sat [OF this] \<open>1 \<le> \<bar>x\<bar>\<close> show ?thesis by (simp add: expo_def)
  qed
next
  case False
  show ?thesis
  proof (cases "2 powi (- int 1022) \<le> \<bar>x\<bar>")
    case True
    from expoDown_bounds [OF True] False show ?thesis by (simp add: expo_def)
  next
    case False
    then have "expoDown 1022 \<bar>x\<bar> = - int 1022" by (intro expoDown_sat) simp_all
    with \<open>\<not> 1 \<le> \<bar>x\<bar>\<close> show ?thesis by (simp add: expo_def)
  qed
qed

lemma expo_upper: "\<bar>x\<bar> < 2 ^ 1025 \<Longrightarrow> \<bar>x\<bar> < 2 powi (expo x + 1)"
proof (cases "1 \<le> \<bar>x\<bar>")
  case True
  assume "\<bar>x\<bar> < 2 ^ 1025"
  then have "\<bar>x\<bar> < 2 ^ Suc 1024" by simp
  from expoUp_bounds [OF True this] True show ?thesis by (simp add: expo_def)
next
  case False
  show ?thesis
  proof (cases "2 powi (- int 1022) \<le> \<bar>x\<bar>")
    case True
    from expoDown_bounds [OF True] False show ?thesis by (simp add: expo_def)
  next
    case b: False
    then have e: "expoDown 1022 \<bar>x\<bar> = - int 1022" by (intro expoDown_sat) simp_all
    have "(2::real) powi (- int 1022) \<le> 2 powi (- int 1022 + 1)"
      by (intro power_int_increasing) simp_all
    with b e False show ?thesis by (simp add: expo_def)
  qed
qed

lemma expo_lower: "2 powi (- 1022) \<le> \<bar>x\<bar> \<Longrightarrow> 2 powi (expo x) \<le> \<bar>x\<bar>"
proof (cases "1 \<le> \<bar>x\<bar>")
  case True
  show ?thesis
  proof (cases "\<bar>x\<bar> < 2 ^ Suc 1024")
    case t: True
    from expoUp_bounds [OF True t] True show ?thesis by (simp add: expo_def)
  next
    case False
    then have l: "(2::real) ^ 1024 \<le> \<bar>x\<bar>" by simp
    from expoUp_sat [OF l] True l show ?thesis by (simp add: expo_def)
  qed
next
  case False
  assume "2 powi (- 1022) \<le> \<bar>x\<bar>"
  then have "2 powi (- int 1022) \<le> \<bar>x\<bar>" by simp
  from expoDown_bounds [OF this] False show ?thesis by (simp add: expo_def)
qed

lemma expo_subnormal: "\<bar>x\<bar> < 2 powi (- 1022) \<Longrightarrow> expo x = - 1022"
proof -
  assume a: "\<bar>x\<bar> < 2 powi (- 1022)"
  have "(2::real) powi (- 1022) \<le> 1" by (rule powi2_le_one) simp
  then have "\<not> 1 \<le> \<bar>x\<bar>" using a by linarith
  moreover have "expoDown 1022 \<bar>x\<bar> = - int 1022" using a by (intro expoDown_sat) simp_all
  ultimately show ?thesis by (simp add: expo_def)
qed

lemma expo_huge: "2 ^ 1024 \<le> \<bar>x\<bar> \<Longrightarrow> expo x = 1024"
proof -
  assume a: "2 ^ 1024 \<le> \<bar>x\<bar>"
  have "(1::real) \<le> 2 ^ 1024" by simp
  then have "1 \<le> \<bar>x\<bar>" using a by linarith
  with expoUp_sat [OF a] show ?thesis by (simp add: expo_def)
qed

lemma expo_unique:
  assumes "- 1022 \<le> e" "e \<le> 1023" "2 powi e \<le> \<bar>x\<bar>" "\<bar>x\<bar> < 2 powi (e + 1)"
  shows "expo x = e"
proof -
  have "(2::real) powi (e + 1) \<le> 2 powi 1024" using assms(2) by (intro power_int_increasing) simp_all
  then have u: "\<bar>x\<bar> < 2 ^ 1025" using assms(4) by simp
  have "(2::real) powi (- 1022) \<le> 2 powi e" using assms(1) by (intro power_int_increasing) simp_all
  then have l: "2 powi (- 1022) \<le> \<bar>x\<bar>" using assms(3) by linarith
  have a: "(2::real) powi e < 2 powi (expo x + 1)" using expo_upper [OF u] assms(3) by linarith
  have b: "(2::real) powi (expo x) < 2 powi (e + 1)" using expo_lower [OF l] assms(4) by linarith
  have "e < expo x + 1" using a by (rule powi2_less_cancel)
  moreover have "expo x < e + 1" using b by (rule powi2_less_cancel)
  ultimately show ?thesis by simp
qed

lemma expo_mono: assumes "\<bar>x\<bar> \<le> \<bar>y\<bar>" shows "expo x \<le> expo y"
proof (rule ccontr)
  assume "\<not> expo x \<le> expo y"
  then have lt: "expo y < expo x" by simp
  then have ey: "expo y \<le> 1023" and ex: "- 1022 < expo x"
    using expo_range [of x] expo_range [of y] by simp_all
  have "\<bar>y\<bar> < 2 ^ 1025"
  proof (rule ccontr)
    assume "\<not> \<bar>y\<bar> < 2 ^ 1025"
    then have "(2::real) ^ 1025 \<le> \<bar>y\<bar>" by simp
    moreover have "(2::real) ^ 1024 \<le> 2 ^ 1025" by simp
    ultimately have "(2::real) ^ 1024 \<le> \<bar>y\<bar>" by linarith
    from expo_huge [OF this] ey show False by simp
  qed
  then have u: "\<bar>y\<bar> < 2 powi (expo y + 1)" by (rule expo_upper)
  have "2 powi (- 1022) \<le> \<bar>x\<bar>"
  proof (rule ccontr)
    assume "\<not> 2 powi (- 1022) \<le> \<bar>x\<bar>"
    then have "\<bar>x\<bar> < 2 powi (- 1022)" by simp
    from expo_subnormal [OF this] ex show False by simp
  qed
  then have l: "2 powi (expo x) \<le> \<bar>x\<bar>" by (rule expo_lower)
  have "(2::real) powi (expo y + 1) \<le> 2 powi (expo x)"
    using lt by (intro power_int_increasing) simp_all
  with u l assms show False by linarith
qed

lemma ulp_pos [simp]: "0 < ulp x"
  by (simp add: ulp_def)

lemma ulp_nonneg [simp]: "0 \<le> ulp x"
  using ulp_pos [of x] by (rule less_imp_le)

lemma ulp_times: "ulp x * 2 ^ 52 = 2 powi (expo x)" "ulp x * 2 ^ 53 = 2 powi (expo x + 1)"
proof -
  have "(2::real) powi (expo x) = 2 powi ((expo x - 52) + 52)" by simp
  also have "\<dots> = 2 powi (expo x - 52) * 2 powi 52" by (subst power_int_add) simp_all
  finally show "ulp x * 2 ^ 52 = 2 powi (expo x)" by (simp add: ulp_def)
  have "expo x + 1 = (expo x - 52) + 53" by simp
  then have "(2::real) powi (expo x + 1) = 2 powi ((expo x - 52) + 53)" by (rule arg_cong)
  also have "\<dots> = 2 powi (expo x - 52) * 2 powi 53" by (subst power_int_add) simp_all
  finally show "ulp x * 2 ^ 53 = 2 powi (expo x + 1)" by (simp add: ulp_def)
qed

lemma nearest_ge: "of_int n * ulp x \<le> x \<Longrightarrow> of_int n * ulp x \<le> nearest x"
proof -
  assume "of_int n * ulp x \<le> x"
  then have "of_int n \<le> x / ulp x" by (simp add: field_simps)
  then have "n \<le> rne (x / ulp x)" by (rule rne_ge_int)
  then have "of_int n * ulp x \<le> of_int (rne (x / ulp x)) * ulp x"
    by (intro mult_right_mono) simp_all
  then show ?thesis by (simp add: nearest_def mult.commute)
qed

lemma nearest_le: "x \<le> of_int n * ulp x \<Longrightarrow> nearest x \<le> of_int n * ulp x"
proof -
  assume "x \<le> of_int n * ulp x"
  then have "x / ulp x \<le> of_int n" by (simp add: field_simps)
  then have "rne (x / ulp x) \<le> n" by (rule rne_le_int)
  then have "of_int (rne (x / ulp x)) * ulp x \<le> of_int n * ulp x"
    by (intro mult_right_mono) simp_all
  then show ?thesis by (simp add: nearest_def mult.commute)
qed

lemma not_huge: "expo x \<le> 1023 \<Longrightarrow> \<bar>x\<bar> < 2 ^ 1025"
proof (rule ccontr)
  assume e: "expo x \<le> 1023" and "\<not> \<bar>x\<bar> < 2 ^ 1025"
  then have "(2::real) ^ 1025 \<le> \<bar>x\<bar>" by simp
  moreover have "(2::real) ^ 1024 \<le> 2 ^ 1025" by simp
  ultimately have "(2::real) ^ 1024 \<le> \<bar>x\<bar>" by linarith
  from expo_huge [OF this] e show False by simp
qed

lemma normal: "- 1022 < expo x \<Longrightarrow> 2 powi (expo x) \<le> \<bar>x\<bar>"
proof -
  assume e: "- 1022 < expo x"
  have "2 powi (- 1022) \<le> \<bar>x\<bar>"
  proof (rule ccontr)
    assume "\<not> 2 powi (- 1022) \<le> \<bar>x\<bar>"
    then have "\<bar>x\<bar> < 2 powi (- 1022)" by simp
    from expo_subnormal [OF this] e show False by simp
  qed
  then show ?thesis by (rule expo_lower)
qed

lemma nearest_le_pow: assumes "expo x \<le> 1023" shows "nearest x \<le> 2 powi (expo x + 1)"
proof -
  have "\<bar>x\<bar> < 2 powi (expo x + 1)" using not_huge [OF assms] by (rule expo_upper)
  then have "x \<le> of_int (2 ^ 53) * ulp x" using ulp_times(2) [of x] by (simp add: mult.commute)
  from nearest_le [OF this] show ?thesis using ulp_times(2) [of x] by (simp add: mult.commute)
qed

lemma nearest_ge_neg_pow: assumes "expo x \<le> 1023" shows "- (2 powi (expo x + 1)) \<le> nearest x"
proof -
  have "\<bar>x\<bar> < 2 powi (expo x + 1)" using not_huge [OF assms] by (rule expo_upper)
  then have "of_int (- (2 ^ 53)) * ulp x \<le> x" using ulp_times(2) [of x] by (simp add: mult.commute)
  from nearest_ge [OF this] show ?thesis using ulp_times(2) [of x] by (simp add: mult.commute)
qed

lemma nearest_ge_pow: assumes "- 1022 < expo x" "0 \<le> x" shows "2 powi (expo x) \<le> nearest x"
proof -
  have "2 powi (expo x) \<le> x" using normal [OF assms(1)] assms(2) by simp
  then have "of_int (2 ^ 52) * ulp x \<le> x" using ulp_times(1) [of x] by (simp add: mult.commute)
  from nearest_ge [OF this] show ?thesis using ulp_times(1) [of x] by (simp add: mult.commute)
qed

lemma nearest_le_neg_pow: assumes "- 1022 < expo x" "x \<le> 0" shows "nearest x \<le> - (2 powi (expo x))"
proof -
  have "x \<le> - (2 powi (expo x))" using normal [OF assms(1)] assms(2) by simp
  then have "x \<le> of_int (- (2 ^ 52)) * ulp x" using ulp_times(1) [of x] by (simp add: mult.commute)
  from nearest_le [OF this] show ?thesis using ulp_times(1) [of x] by (simp add: mult.commute)
qed

lemma nearest_same_expo: assumes "expo x = expo y" "x \<le> y" shows "nearest x \<le> nearest y"
proof -
  have u: "ulp x = ulp y" using assms(1) by (simp add: ulp_def)
  have "x / ulp y \<le> y / ulp y" using assms(2) by (intro divide_right_mono) simp_all
  then have "rne (x / ulp y) \<le> rne (y / ulp y)" by (rule rne_mono)
  then have "ulp y * of_int (rne (x / ulp y)) \<le> ulp y * of_int (rne (y / ulp y))"
    by (intro mult_left_mono) simp_all
  then show ?thesis by (simp add: nearest_def u)
qed

lemma nearest_nonneg: "0 \<le> x \<Longrightarrow> 0 \<le> nearest x"
  using nearest_ge [of 0 x] by simp

lemma nearest_nonpos: "x \<le> 0 \<Longrightarrow> nearest x \<le> 0"
  using nearest_le [of x 0] by simp

lemma nearest_mono: assumes "x \<le> y" shows "nearest x \<le> nearest y"
proof (cases "expo x = expo y")
  case True
  then show ?thesis using assms by (rule nearest_same_expo)
next
  case ne: False
  consider "0 \<le> x" | "y \<le> 0" | "x < 0" "0 < y" by linarith
  then show ?thesis
  proof cases
    case 1
    then have "\<bar>x\<bar> \<le> \<bar>y\<bar>" using assms by simp
    then have "expo x \<le> expo y" by (rule expo_mono)
    with ne have lt: "expo x < expo y" by simp
    then have ex: "expo x \<le> 1023" and ey: "- 1022 < expo y"
      using expo_range [of x] expo_range [of y] by simp_all
    have "nearest x \<le> 2 powi (expo x + 1)" using ex by (rule nearest_le_pow)
    also have "\<dots> \<le> 2 powi (expo y)" using lt by (intro power_int_increasing) simp_all
    also have "\<dots> \<le> nearest y" using ey 1 assms by (intro nearest_ge_pow) simp_all
    finally show ?thesis .
  next
    case 2
    then have "\<bar>y\<bar> \<le> \<bar>x\<bar>" using assms by simp
    then have "expo y \<le> expo x" by (rule expo_mono)
    with ne have lt: "expo y < expo x" by simp
    then have ey: "expo y \<le> 1023" and ex: "- 1022 < expo x"
      using expo_range [of x] expo_range [of y] by simp_all
    have "nearest x \<le> - (2 powi (expo x))" using ex 2 assms by (intro nearest_le_neg_pow) simp_all
    also have "\<dots> \<le> - (2 powi (expo y + 1))" using lt by (simp add: power_int_increasing)
    also have "\<dots> \<le> nearest y" using ey by (rule nearest_ge_neg_pow)
    finally show ?thesis .
  next
    case 3
    then have "nearest x \<le> 0" "0 \<le> nearest y"
      using nearest_nonpos [of x] nearest_nonneg [of y] by simp_all
    then show ?thesis by simp
  qed
qed

lemma nearest_exact:
  assumes "x = of_int m * 2 powi k" "\<bar>m\<bar> < 2 ^ 53" "- 1074 \<le> k"
  shows "nearest x = x"
proof -
  have le: "expo x - 52 \<le> k"
  proof (rule ccontr)
    assume "\<not> expo x - 52 \<le> k"
    then have gt: "k + 53 \<le> expo x" by simp
    then have "- 1022 < expo x" using assms(3) by simp
    then have l: "2 powi (expo x) \<le> \<bar>x\<bar>" by (rule normal)
    have "\<bar>x\<bar> = of_int \<bar>m\<bar> * 2 powi k" by (simp add: assms(1) abs_mult)
    also have "\<dots> < 2 ^ 53 * 2 powi k"
    proof (intro mult_strict_right_mono)
      have "(of_int \<bar>m\<bar> :: real) < of_int (2 ^ 53)" using assms(2) by (simp only: of_int_less_iff)
      then show "(of_int \<bar>m\<bar> :: real) < 2 ^ 53" by simp
    qed simp
    also have "\<dots> = 2 powi (k + 53)" by (subst power_int_add) (simp_all add: mult.commute)
    also have "\<dots> \<le> 2 powi (expo x)" using gt by (intro power_int_increasing) simp_all
    finally show False using l by simp
  qed
  define j where "j = nat (k - (expo x - 52))"
  have k: "k = (expo x - 52) + int j" using le by (simp add: j_def)
  have "(2::real) powi ((expo x - 52) + int j) = 2 powi (expo x - 52) * 2 powi (int j)"
    by (subst power_int_add) simp_all
  then have pk: "(2::real) powi k = ulp x * 2 ^ j" using k by (simp add: ulp_def)
  have "x = of_int m * 2 powi k" by fact
  also have "\<dots> = of_int m * (ulp x * 2 ^ j)" by (simp only: pk)
  also have "\<dots> = of_int (m * 2 ^ j) * ulp x" by simp
  finally have x: "x = of_int (m * 2 ^ j) * ulp x" .
  have nz: "ulp x \<noteq> 0" by (simp add: ulp_def)
  have "x / ulp x = of_int (m * 2 ^ j)"
    by (subst x) (simp only: nonzero_mult_div_cancel_right [OF nz])
  then have "rne (x / ulp x) = m * 2 ^ j" by (simp only: rne_of_int)
  then have "nearest x = ulp x * of_int (m * 2 ^ j)" by (simp add: nearest_def)
  with x show ?thesis by (simp add: mult.commute)
qed

lemma nearest_int: "\<bar>n\<bar> < 2 ^ 53 \<Longrightarrow> nearest (of_int n) = of_int n"
  using nearest_exact [of "of_int n" n 0] by simp

lemma nearest_abs_mono_bound:
  assumes "a \<le> x" "x \<le> b" "nearest a = a" "nearest b = b"
  shows "a \<le> nearest x \<and> nearest x \<le> b"
  using nearest_mono [OF assms(1)] nearest_mono [OF assms(2)] assms(3,4) by simp

lemma round64_between:
  assumes "a \<le> x" "x \<le> b" "nearest a = a" "nearest b = b" "- (2 ^ 1024) < a" "b < 2 ^ 1024"
  shows "\<exists>v. round64 x = Finite v \<and> v = nearest x \<and> a \<le> v \<and> v \<le> b"
proof -
  have "a \<le> nearest x \<and> nearest x \<le> b" using assms(1-4) by (rule nearest_abs_mono_bound)
  moreover from this have "\<bar>nearest x\<bar> < 2 ^ 1024" using assms(5,6) by (simp add: abs_less_iff)
  ultimately show ?thesis by (simp add: round64_def)
qed

lemma nearest_eval:
  assumes "- 1022 \<le> e" "e \<le> 1023" "2 powi e \<le> \<bar>x\<bar>" "\<bar>x\<bar> < 2 powi (e + 1)"
  shows "nearest x = 2 powi (e - 52) * of_int (rne (x / 2 powi (e - 52)))"
  using expo_unique [OF assms] by (simp add: nearest_def ulp_def)

lemma int64_id: "- (2 ^ 63) \<le> i \<Longrightarrow> i < 2 ^ 63 \<Longrightarrow> int64 i = i"
  by (simp add: int64_def)

lemma nearest_consts:
  "nearest 0 = 0" "nearest 1 = 1" "nearest 20 = 20" "nearest 21 = 21" "nearest (- 1) = - 1"
  "nearest 100 = 100"
  using nearest_int [of 0] nearest_int [of 1] nearest_int [of 20] nearest_int [of 21]
    nearest_int [of "- 1"] nearest_int [of 100]
  by simp_all

lemma nearest_pow2: "- 1074 \<le> k \<Longrightarrow> nearest (2 powi k) = 2 powi k"
  using nearest_exact [of "2 powi k" 1 k] by simp

lemma nearest_neg_pow2: "- 1074 \<le> k \<Longrightarrow> nearest (- (2 powi k)) = - (2 powi k)"
  using nearest_exact [of "- (2 powi k)" "- 1" k] by simp

lemma round64_eval:
  assumes "- 1022 \<le> e" "e \<le> 1022" "2 powi e \<le> \<bar>x\<bar>" "\<bar>x\<bar> < 2 powi (e + 1)"
    and "rne (x / 2 powi (e - 52)) = n"
  shows "round64 x = Finite (of_int n * 2 powi (e - 52))"
proof -
  have e: "expo x = e" using assms(1-4) by (intro expo_unique) simp_all
  have n: "nearest x = of_int n * 2 powi (e - 52)"
    using assms(5) e by (simp add: nearest_def ulp_def)
  have "nearest x \<le> 2 powi (e + 1)" "- (2 powi (e + 1)) \<le> nearest x"
    using nearest_le_pow [of x] nearest_ge_neg_pow [of x] e assms(2) by simp_all
  moreover have "(2::real) powi (e + 1) \<le> 2 powi 1023"
    using assms(2) by (intro power_int_increasing) simp_all
  moreover have "(2::real) powi 1023 < 2 ^ 1024" by simp
  ultimately have "\<bar>nearest x\<bar> < 2 ^ 1024" by (simp add: abs_less_iff)
  then show ?thesis using n by (simp add: round64_def)
qed

lemma nearest_21_20: "nearest (21 / 20) = 4728779608739021 / 2 ^ 52"
proof -
  have "nearest (21 / 20) = 2 powi (0 - 52) * of_int (rne ((21 / 20) / 2 powi (0 - 52)))"
    by (rule nearest_eval) simp_all
  then show ?thesis by (simp add: rne_def Let_def power_int_minus)
qed

lemma nearest_m1_20: "nearest (- (1 / 20)) = - (7205759403792794 / 2 ^ 57)"
proof -
  have "nearest (- (1 / 20)) =
          2 powi (- 5 - 52) * of_int (rne ((- (1 / 20)) / 2 powi (- 5 - 52)))"
    by (rule nearest_eval) (simp_all add: power_int_minus)
  then show ?thesis by (simp add: rne_def Let_def power_int_minus)
qed

lemma round64_Finite: "round64 x = Finite v \<longleftrightarrow> \<bar>nearest x\<bar> < 2 ^ 1024 \<and> v = nearest x"
  by (auto simp: round64_def)

lemma round64_sandwich:
  assumes "a \<le> x" "x \<le> b" "round64 a = Finite va" "round64 b = Finite vb"
  shows "\<exists>v. round64 x = Finite v \<and> va \<le> v \<and> v \<le> vb"
proof -
  have a: "\<bar>va\<bar> < 2 ^ 1024" "va = nearest a" and b: "\<bar>vb\<bar> < 2 ^ 1024" "vb = nearest b"
    using assms(3,4) by (simp_all add: round64_Finite)
  have "va \<le> nearest x" "nearest x \<le> vb"
    using nearest_mono [OF assms(1)] nearest_mono [OF assms(2)] a(2) b(2) by simp_all
  moreover from this have "\<bar>nearest x\<bar> < 2 ^ 1024" using a(1) b(1) by (simp add: abs_less_iff)
  ultimately show ?thesis by (simp add: round64_Finite)
qed

lemma rne_error: "\<bar>of_int (rne y) - y\<bar> \<le> 1 / 2"
proof -
  have "of_int \<lfloor>y\<rfloor> \<le> y" "y < of_int \<lfloor>y\<rfloor> + 1" by linarith+
  then show ?thesis by (auto simp: rne_def Let_def abs_le_iff)
qed

lemma nearest_error: "\<bar>nearest x - x\<bar> \<le> ulp x / 2"
proof -
  have u: "0 < ulp x" by (rule ulp_pos)
  have nz: "ulp x \<noteq> 0" by (simp add: ulp_def)
  have "ulp x * (of_int (rne (x / ulp x)) - x / ulp x) =
          ulp x * of_int (rne (x / ulp x)) - ulp x * (x / ulp x)"
    by (simp only: right_diff_distrib)
  also have "ulp x * (x / ulp x) = x" using nz by simp
  finally have "nearest x - x = ulp x * (of_int (rne (x / ulp x)) - x / ulp x)"
    by (simp add: nearest_def)
  then have "\<bar>nearest x - x\<bar> = ulp x * \<bar>of_int (rne (x / ulp x)) - x / ulp x\<bar>"
    using u by (simp add: abs_mult)
  also have "\<dots> \<le> ulp x * (1 / 2)"
    using u rne_error [of "x / ulp x"] by (intro mult_left_mono) simp_all
  finally show ?thesis by simp
qed

lemma expo_100: "expo 100 = 6"
  by (rule expo_unique) simp_all

lemma ulp_le_100: assumes "\<bar>x\<bar> \<le> 100" shows "ulp x \<le> 1 / 2 ^ 46"
proof -
  have "expo x \<le> expo 100" using assms by (intro expo_mono) simp
  then have "expo x - 52 \<le> - 46" by (simp add: expo_100)
  then have "(2::real) powi (expo x - 52) \<le> 2 powi (- 46)"
    by (intro power_int_increasing) simp_all
  then show ?thesis by (simp add: ulp_def power_int_minus field_simps)
qed

lemma used_of_idle:
  assumes "0 \<le> i" "i \<le> 100"
  shows "sub64 (Finite 100) (Finite i) = Finite (nearest (100 - i))"
    and "0 \<le> nearest (100 - i)" and "nearest (100 - i) \<le> 100"
    and "\<bar>nearest (100 - i) - (100 - i)\<bar> \<le> 1 / 2 ^ 47"
proof -
  have "\<exists>v. round64 (100 - i) = Finite v \<and> v = nearest (100 - i) \<and> 0 \<le> v \<and> v \<le> 100"
    using assms by (intro round64_between) (simp_all add: nearest_consts)
  then show "sub64 (Finite 100) (Finite i) = Finite (nearest (100 - i))"
    and "0 \<le> nearest (100 - i)" and "nearest (100 - i) \<le> 100" by auto
  have "\<bar>100 - i\<bar> \<le> 100" using assms by simp
  then have "ulp (100 - i) \<le> 1 / 2 ^ 46" by (rule ulp_le_100)
  then have "ulp (100 - i) / 2 \<le> 1 / 2 ^ 47" by simp
  then show "\<bar>nearest (100 - i) - (100 - i)\<bar> \<le> 1 / 2 ^ 47"
    using nearest_error [of "100 - i"] by linarith
qed

lemma used_of_idle_exact:
  assumes "0 \<le> i" "i \<le> 100" "i = of_int n / 2 ^ 46"
  shows "nearest (100 - i) = 100 - i"
proof -
  have "(0::real) \<le> of_int n" "of_int n \<le> (100 * 2 ^ 46 :: real)"
    using assms by (simp_all add: field_simps)
  then have "(of_int 0 :: real) \<le> of_int n" "of_int n \<le> (of_int (100 * 2 ^ 46) :: real)" by simp_all
  then have n: "0 \<le> n" "n \<le> 100 * 2 ^ 46" by (simp_all only: of_int_le_iff)
  have "100 - i = of_int (100 * 2 ^ 46 - n) * 2 powi (- 46)"
    using assms(3) by (simp add: power_int_minus field_simps)
  moreover have "\<bar>100 * 2 ^ 46 - n\<bar> < 2 ^ 53" using n by simp
  ultimately show ?thesis by (rule nearest_exact) simp
qed

lemma nearest_examples: "nearest 30 = 30" "nearest 35 = 35"
  using nearest_int [of 30] nearest_int [of 35] by simp_all

text \<open>
  The 53-digit numbers with the binary exponent \<open>e\<close> are the multiples of \<open>2^(e-52)\<close>: none
  lies strictly between 105 and the multiple of \<open>2^-46\<close> before it, and none strictly between
  -5 and the multiple of \<open>2^-50\<close> after it.
\<close>

lemma float64_grid:
  assumes "nearest x = x" "- 1022 \<le> e" "e \<le> 1023" "2 powi e \<le> \<bar>x\<bar>" "\<bar>x\<bar> < 2 powi (e + 1)"
  shows "\<exists>n. x = of_int n * 2 powi (e - 52)"
proof -
  have "nearest x = 2 powi (e - 52) * of_int (rne (x / 2 powi (e - 52)))"
    using assms(2-5) by (rule nearest_eval)
  then have "x = of_int (rne (x / 2 powi (e - 52))) * 2 powi (e - 52)"
    using assms(1) by (simp add: mult.commute)
  then show ?thesis ..
qed

lemma no_float64_below_105:
  assumes "nearest x = x" "x < 105"
  shows "x \<le> 105 - 1 / 2 ^ 46"
proof (cases "x < 64")
  case True
  have "(1::real) / 2 ^ 46 \<le> 1" by simp
  then show ?thesis using True by linarith
next
  case False
  then have "2 powi 6 \<le> \<bar>x\<bar>" "\<bar>x\<bar> < 2 powi (6 + 1)" using assms(2) by simp_all
  with assms(1) obtain n where "x = of_int n * 2 powi (6 - 52)"
    using float64_grid [of x 6] by auto
  then have n: "x = of_int n / 2 ^ 46" by (simp add: power_int_minus field_simps)
  then have "of_int n < (105 * 2 ^ 46 :: real)" using assms(2) by (simp add: field_simps)
  then have "of_int n < (of_int (105 * 2 ^ 46) :: real)" by simp
  then have "n < 105 * 2 ^ 46" by (simp only: of_int_less_iff)
  then have "n \<le> 105 * 2 ^ 46 - 1" by simp
  then have "(of_int n :: real) \<le> of_int (105 * 2 ^ 46 - 1)" by (simp only: of_int_le_iff)
  then show ?thesis using n by (simp add: field_simps)
qed

lemma no_float64_above_minus_5:
  assumes "nearest x = x" "- 5 < x"
  shows "- 5 + 1 / 2 ^ 50 \<le> x"
proof (cases "- 4 \<le> x")
  case True
  have "(1::real) / 2 ^ 50 \<le> 1" by simp
  then show ?thesis using True by linarith
next
  case False
  then have "2 powi 2 \<le> \<bar>x\<bar>" "\<bar>x\<bar> < 2 powi (2 + 1)" using assms(2) by simp_all
  with assms(1) obtain n where "x = of_int n * 2 powi (2 - 52)"
    using float64_grid [of x 2] by auto
  then have n: "x = of_int n / 2 ^ 50" by (simp add: power_int_minus field_simps)
  then have "(- 5 * 2 ^ 50 :: real) < of_int n" using assms(2) by (simp add: field_simps)
  then have "(of_int (- 5 * 2 ^ 50) :: real) < of_int n" by simp
  then have "- 5 * 2 ^ 50 < n" by (simp only: of_int_less_iff)
  then have "- 5 * 2 ^ 50 + 1 \<le> n" by simp
  then have "(of_int (- 5 * 2 ^ 50 + 1) :: real) \<le> of_int n" by (simp only: of_int_le_iff)
  then show ?thesis using n by (simp add: field_simps)
qed

subsection \<open>The scaled percentage\<close>

text \<open>
  The scaled percentage is monotone in the percentage, so its value at a few percentages
  bounds it in between. The values at these percentages are computed digit by digit.
\<close>

lemma scaled_stages:
  "scaled (Finite p) = Finite v \<longleftrightarrow>
     (\<exists>q. round64 (p / 100) = Finite q \<and> round64 (q * 20) = Finite v)"
  by (cases "round64 (p / 100)") (simp_all add: scaled_def totalBars_def)

lemma scaled_sandwich:
  assumes "a \<le> p" "p \<le> b" "scaled (Finite a) = Finite va" "scaled (Finite b) = Finite vb"
  shows "\<exists>v. scaled (Finite p) = Finite v \<and> va \<le> v \<and> v \<le> vb"
proof -
  obtain qa where qa: "round64 (a / 100) = Finite qa" "round64 (qa * 20) = Finite va"
    using assms(3) by (auto simp: scaled_stages)
  obtain qb where qb: "round64 (b / 100) = Finite qb" "round64 (qb * 20) = Finite vb"
    using assms(4) by (auto simp: scaled_stages)
  have "a / 100 \<le> p / 100" "p / 100 \<le> b / 100" using assms(1,2) by simp_all
  then obtain q where q: "round64 (p / 100) = Finite q" "qa \<le> q" "q \<le> qb"
    using round64_sandwich [OF _ _ qa(1) qb(1)] by blast
  have "qa * 20 \<le> q * 20" "q * 20 \<le> qb * 20" using q(2,3) by simp_all
  then obtain v where v: "round64 (q * 20) = Finite v" "va \<le> v" "v \<le> vb"
    using round64_sandwich [OF _ _ qa(2) qb(2)] by blast
  show ?thesis using q(1) v by (auto simp: scaled_stages)
qed

lemma scaled_eval:
  assumes "- 1022 \<le> e1" "e1 \<le> 1022" "2 powi e1 \<le> \<bar>p / 100\<bar>" "\<bar>p / 100\<bar> < 2 powi (e1 + 1)"
    and "rne (p / 100 / 2 powi (e1 - 52)) = n1"
    and "q = of_int n1 * 2 powi (e1 - 52)"
    and "- 1022 \<le> e2" "e2 \<le> 1022" "2 powi e2 \<le> \<bar>q * 20\<bar>" "\<bar>q * 20\<bar> < 2 powi (e2 + 1)"
    and "rne (q * 20 / 2 powi (e2 - 52)) = n2"
  shows "scaled (Finite p) = Finite (of_int n2 * 2 powi (e2 - 52))"
proof -
  have "round64 (p / 100) = Finite q"
    using round64_eval [OF assms(1-5)] assms(6) by simp
  moreover have "round64 (q * 20) = Finite (of_int n2 * 2 powi (e2 - 52))"
    by (rule round64_eval [OF assms(7-11)])
  ultimately show ?thesis by (simp add: scaled_stages)
qed

lemma scaled_0: "scaled (Finite 0) = Finite 0"
  by (simp add: scaled_stages round64_Finite nearest_consts)

lemma scaled_35: "scaled (Finite (35)) = Finite (7)"
  using scaled_eval [where p = "35" and ?e1.0 = "-2" and ?n1.0 = "6305039478318694" and q = "3152519739159347 / 9007199254740992"
      and ?e2.0 = "2" and ?n2.0 = "7881299347898368"]
  by (simp add: rne_def Let_def power_int_minus)

lemma scaled_30: "scaled (Finite (30)) = Finite (6)"
  using scaled_eval [where p = "30" and ?e1.0 = "-2" and ?n1.0 = "5404319552844595" and q = "5404319552844595 / 18014398509481984"
      and ?e2.0 = "2" and ?n2.0 = "6755399441055744"]
  by (simp add: rne_def Let_def power_int_minus)

lemma scaled_below_30: "scaled (Finite (30 - 1 / 2 ^ 48)) = Finite (6)"
  using scaled_eval [where p = "30 - 1 / 2 ^ 48" and ?e1.0 = "-2" and ?n1.0 = "5404319552844595" and q = "5404319552844595 / 18014398509481984"
      and ?e2.0 = "2" and ?n2.0 = "6755399441055744"]
  by (simp add: rne_def Let_def power_int_minus)

lemma scaled_105: "scaled (Finite (105)) = Finite (21)"
  using scaled_eval [where p = "105" and ?e1.0 = "0" and ?n1.0 = "4728779608739021" and q = "4728779608739021 / 4503599627370496"
      and ?e2.0 = "4" and ?n2.0 = "5910974510923776"]
  by (simp add: rne_def Let_def power_int_minus)

lemma scaled_below_105: "scaled (Finite (105 - 1 / 2 ^ 46)) = Finite (21 - 1 / 2 ^ 48)"
  using scaled_eval [where p = "105 - 1 / 2 ^ 46" and ?e1.0 = "0" and ?n1.0 = "4728779608739020" and q = "1182194902184755 / 1125899906842624"
      and ?e2.0 = "4" and ?n2.0 = "5910974510923775"]
  by (simp add: rne_def Let_def power_int_minus)

lemma scaled_minus_5: "scaled (Finite (- 5)) = Finite (- 1)"
  using scaled_eval [where p = "- 5" and ?e1.0 = "-5" and ?n1.0 = "-7205759403792794" and q = "- (3602879701896397 / 72057594037927936)"
      and ?e2.0 = "0" and ?n2.0 = "-4503599627370496"]
  by (simp add: rne_def Let_def power_int_minus)

lemma scaled_above_minus_5: "scaled (Finite (- 5 + 1 / 2 ^ 50)) = Finite (- (1 - 1 / 2 ^ 52))"
  using scaled_eval [where p = "- 5 + 1 / 2 ^ 50" and ?e1.0 = "-5" and ?n1.0 = "-7205759403792792" and q = "- (900719925474099 / 18014398509481984)"
      and ?e2.0 = "-1" and ?n2.0 = "-9007199254740990"]
  by (simp add: rne_def Let_def power_int_minus)

lemma scaled_minus_1: "scaled (Finite (- 1)) = Finite (- (3602879701896397 / 2 ^ 54))"
  using scaled_eval [where p = "- 1" and ?e1.0 = "-7" and ?n1.0 = "-5764607523034235" and q = "- (5764607523034235 / 576460752303423488)"
      and ?e2.0 = "-3" and ?n2.0 = "-7205759403792794"]
  by (simp add: rne_def Let_def power_int_minus)

lemma scaled_100: "scaled (Finite (100)) = Finite (20)"
  using scaled_eval [where p = "100" and ?e1.0 = "0" and ?n1.0 = "4503599627370496" and q = "1"
      and ?e2.0 = "4" and ?n2.0 = "5629499534213120"]
  by (simp add: rne_def Let_def power_int_minus)

lemma scaled_in_range:
  assumes "0 \<le> p" "p \<le> 100"
  shows "\<exists>v. scaled (Finite p) = Finite v \<and> 0 \<le> v \<and> v \<le> 20"
proof -
  have "\<exists>v. round64 (p / 100) = Finite v \<and> v = nearest (p / 100) \<and> 0 \<le> v \<and> v \<le> 1"
    using assms by (intro round64_between) (simp_all add: nearest_consts)
  then obtain v1 where v1: "round64 (p / 100) = Finite v1" "0 \<le> v1" "v1 \<le> 1" by blast
  have "\<exists>v. round64 (v1 * 20) = Finite v \<and> v = nearest (v1 * 20) \<and> 0 \<le> v \<and> v \<le> 20"
    using v1(2,3) by (intro round64_between) (simp_all add: nearest_consts)
  then obtain v2 where v2: "round64 (v1 * 20) = Finite v2" "0 \<le> v2" "v2 \<le> 20" by blast
  show ?thesis using v1(1) v2 by (simp add: scaled_def totalBars_def)
qed

lemma scaled_high:
  assumes "105 \<le> p" "p \<le> 10 ^ 19"
  shows "\<exists>v. scaled (Finite p) = Finite v \<and> 21 \<le> v \<and> v \<le> 2 ^ 62"
proof -
  have a: "21 / 20 \<le> p / 100" "p / 100 \<le> 2 powi 57" using assms by simp_all
  have "nearest (21 / 20) \<le> nearest (p / 100)" using a(1) by (rule nearest_mono)
  then have l: "21 / 20 \<le> nearest (p / 100)" by (simp add: nearest_21_20)
  have "nearest (p / 100) \<le> nearest (2 powi 57)" using a(2) by (rule nearest_mono)
  then have u: "nearest (p / 100) \<le> 2 ^ 57" using nearest_pow2 [of 57] by simp
  have "\<bar>nearest (p / 100)\<bar> < 2 ^ 1024" using l u by (simp add: abs_less_iff)
  then have v1: "round64 (p / 100) = Finite (nearest (p / 100))" by (simp add: round64_def)
  let ?v1 = "nearest (p / 100)"
  have b: "21 \<le> ?v1 * 20" "?v1 * 20 \<le> 2 powi 62" using l u by simp_all
  have n62: "nearest (2 powi 62) = 2 powi 62" by (rule nearest_pow2) simp
  have "\<exists>v. round64 (?v1 * 20) = Finite v \<and> v = nearest (?v1 * 20) \<and> 21 \<le> v \<and> v \<le> 2 powi 62"
    using b(1) b(2) nearest_consts(4) n62 by (rule round64_between) simp_all
  then obtain v2 where v2: "round64 (?v1 * 20) = Finite v2" "21 \<le> v2" "v2 \<le> 2 ^ 62" by auto
  show ?thesis using v1 v2 by (simp add: scaled_def totalBars_def)
qed

lemma scaled_low:
  assumes "p \<le> - 5" "- (10 ^ 19) \<le> p"
  shows "\<exists>v. scaled (Finite p) = Finite v \<and> v \<le> - 1 \<and> - (2 ^ 62) \<le> v"
proof -
  have a: "p / 100 \<le> - (1 / 20)" "- (2 powi 57) \<le> p / 100" using assms by simp_all
  have "nearest (p / 100) \<le> nearest (- (1 / 20))" using a(1) by (rule nearest_mono)
  then have l: "nearest (p / 100) \<le> - (1 / 20)" by (simp add: nearest_m1_20)
  have "nearest (- (2 powi 57)) \<le> nearest (p / 100)" using a(2) by (rule nearest_mono)
  then have u: "- (2 ^ 57) \<le> nearest (p / 100)" using nearest_neg_pow2 [of 57] by simp
  have "\<bar>nearest (p / 100)\<bar> < 2 ^ 1024" using l u by (simp add: abs_less_iff)
  then have v1: "round64 (p / 100) = Finite (nearest (p / 100))" by (simp add: round64_def)
  let ?v1 = "nearest (p / 100)"
  have b: "?v1 * 20 \<le> - 1" "- (2 powi 62) \<le> ?v1 * 20" using l u by simp_all
  have n62: "nearest (- (2 powi 62)) = - (2 powi 62)" by (rule nearest_neg_pow2) simp
  have "\<exists>v. round64 (?v1 * 20) = Finite v \<and> v = nearest (?v1 * 20) \<and>
          - (2 powi 62) \<le> v \<and> v \<le> - 1"
    using b(2) b(1) n62 nearest_consts(5) by (rule round64_between) simp_all
  then obtain v2 where v2: "round64 (?v1 * 20) = Finite v2" "v2 \<le> - 1" "- (2 ^ 62) \<le> v2" by auto
  show ?thesis using v1 v2 by (simp add: scaled_def totalBars_def)
qed

section \<open>Properties of the progress bar and the header\<close>

lemma concat_replicate_bar: "concat (replicate n ''|'') = replicate n CHR ''|''"
  by (induction n) simp_all

lemma Repeat_bar:
  "0 \<le> k \<Longrightarrow> nat k \<le> maxLen lib \<Longrightarrow> Repeat lib ''|'' k = Inr (replicate (nat k) CHR ''|'')"
  by (simp add: Repeat_def concat_replicate_bar)

lemma Repeat_negative: "k < 0 \<Longrightarrow> Repeat lib s k = Inl NegativeRepeatCount"
  by (simp add: Repeat_def)

lemma go_int_finite:
  "- (2 ^ 63) \<le> v \<Longrightarrow> v < 2 ^ 63 \<Longrightarrow>
   go_int lib (Finite v) = (if 0 \<le> v then \<lfloor>v\<rfloor> else \<lceil>v\<rceil>)"
proof -
  assume a: "- (2 ^ 63) \<le> v" "v < 2 ^ 63"
  have "of_int (- (2 ^ 63)) \<le> v" "v < of_int (2 ^ 63)" using a by simp_all
  then have "- (2 ^ 63) \<le> \<lfloor>v\<rfloor>" "\<lfloor>v\<rfloor> < 2 ^ 63" "- (2 ^ 63) \<le> \<lceil>v\<rceil>"
    by (simp_all only: le_floor_iff floor_less_iff) linarith
  moreover have "v < 0 \<Longrightarrow> \<lceil>v\<rceil> < 2 ^ 63"
  proof -
    assume "v < 0"
    then have "\<lceil>v\<rceil> \<le> 0" by (simp add: ceiling_le_iff)
    then show ?thesis by simp
  qed
  ultimately show ?thesis by (auto simp: go_int_def Let_def)
qed

lemma fillBars_range:
  assumes "0 \<le> p" "p \<le> 100"
  shows "0 \<le> fillBars lib (Finite p) \<and> fillBars lib (Finite p) \<le> 20"
proof -
  obtain v where v: "scaled (Finite p) = Finite v" "0 \<le> v" "v \<le> 20"
    using scaled_in_range [OF assms] by blast
  have "go_int lib (Finite v) = \<lfloor>v\<rfloor>" using v(2,3) by (subst go_int_finite) simp_all
  moreover have "0 \<le> \<lfloor>v\<rfloor>" "\<lfloor>v\<rfloor> \<le> 20" using v(2,3) by (simp_all add: floor_le_iff) 
  ultimately show ?thesis by (simp add: fillBars_def v(1))
qed

lemma fillBars_high:
  assumes "105 \<le> p" "p \<le> 10 ^ 19"
  shows "21 \<le> fillBars lib (Finite p) \<and> fillBars lib (Finite p) < 2 ^ 63"
proof -
  obtain v where v: "scaled (Finite p) = Finite v" "21 \<le> v" "v \<le> 2 ^ 62"
    using scaled_high [OF assms] by blast
  have "go_int lib (Finite v) = \<lfloor>v\<rfloor>" using v(2,3) by (subst go_int_finite) simp_all
  moreover have "21 \<le> \<lfloor>v\<rfloor>" using v(2) by (simp add: le_floor_iff)
  moreover have "\<lfloor>v\<rfloor> < 2 ^ 63"
  proof -
    have "v < of_int (2 ^ 63)" using v(3) by simp
    then show ?thesis by (simp only: floor_less_iff)
  qed
  ultimately show ?thesis by (simp add: fillBars_def v(1))
qed

lemma fillBars_low:
  assumes "p \<le> - 5" "- (10 ^ 19) \<le> p"
  shows "fillBars lib (Finite p) \<le> - 1"
proof -
  obtain v where v: "scaled (Finite p) = Finite v" "v \<le> - 1" "- (2 ^ 62) \<le> v"
    using scaled_low [OF assms] by blast
  have "go_int lib (Finite v) = \<lceil>v\<rceil>" using v(2,3) by (subst go_int_finite) simp_all
  moreover have "\<lceil>v\<rceil> \<le> - 1" using v(2) by (simp add: ceiling_le_iff)
  ultimately show ?thesis by (simp add: fillBars_def v(1))
qed

lemma progressBar_value:
  assumes "0 \<le> fillBars lib p" "fillBars lib p \<le> 20" "20 \<le> maxLen lib"
  shows "progressBar lib p st =
           Inr (Render lib st
                 (''['' @ Render lib (Foreground (Green Color) st)
                           (replicate (nat (fillBars lib p)) CHR ''|'')
                      @ Render lib (Foreground (Secondary Color) st)
                           (replicate (20 - nat (fillBars lib p)) CHR ''|'') @ '']''))"
proof -
  let ?k = "fillBars lib p"
  have a: "Repeat lib ''|'' ?k = Inr (replicate (nat ?k) CHR ''|'')"
    using assms by (intro Repeat_bar) simp_all
  have i: "int64 (totalBars - ?k) = 20 - ?k"
    using assms(1,2) by (simp add: totalBars_def int64_id)
  have b: "Repeat lib ''|'' (20 - ?k) = Inr (replicate (nat (20 - ?k)) CHR ''|'')"
    using assms by (intro Repeat_bar) simp_all
  have n: "nat (20 - ?k) = 20 - nat ?k" using assms(1) by simp
  show ?thesis by (simp add: progressBar_def a i b n)
qed

lemma progressBar_negative:
  "fillBars lib p < 0 \<Longrightarrow> progressBar lib p st = Inl NegativeRepeatCount"
  by (simp add: progressBar_def Repeat_negative)

lemma progressBar_above:
  assumes "20 < fillBars lib p" "fillBars lib p < 2 ^ 63"
  shows "int64 (totalBars - fillBars lib p) < 0"
    and "progressBar lib p st =
           Inl (if maxLen lib < nat (fillBars lib p) then OutputTooLong else NegativeRepeatCount)"
proof -
  let ?k = "fillBars lib p"
  have i: "int64 (totalBars - ?k) = 20 - ?k"
    using assms by (simp add: totalBars_def int64_id)
  then show "int64 (totalBars - ?k) < 0" using assms(1) by simp
  show "progressBar lib p st =
           Inl (if maxLen lib < nat ?k then OutputTooLong else NegativeRepeatCount)"
    using assms(1) by (simp add: progressBar_def i Repeat_def)
qed

lemma fillBars_above_minus_5:
  assumes "- 5 + 1 / 2 ^ 50 \<le> p" "p \<le> 0"
  shows "fillBars lib (Finite p) = 0"
proof -
  obtain v where v: "scaled (Finite p) = Finite v" "- (1 - 1 / 2 ^ 52) \<le> v" "v \<le> 0"
    using scaled_sandwich [OF assms scaled_above_minus_5 scaled_0] by blast
  have "(0::real) < 1 / 2 ^ 52" by simp
  then have m: "- 1 < v" using v(2) by linarith
  have g: "go_int lib (Finite v) = (if 0 \<le> v then \<lfloor>v\<rfloor> else \<lceil>v\<rceil>)"
    using m v(3) by (subst go_int_finite) simp_all
  have "\<lceil>v\<rceil> = 0" using m v(3) by (simp add: ceiling_eq_iff)
  moreover have "0 \<le> v \<Longrightarrow> \<lfloor>v\<rfloor> = 0" using v(3) by simp
  ultimately show ?thesis using g by (simp add: fillBars_def v(1))
qed

lemma fillBars_below_105:
  assumes "100 \<le> p" "p \<le> 105 - 1 / 2 ^ 46"
  shows "fillBars lib (Finite p) = 20"
proof -
  obtain v where v: "scaled (Finite p) = Finite v" "20 \<le> v" "v \<le> 21 - 1 / 2 ^ 48"
    using scaled_sandwich [OF assms scaled_100 scaled_below_105] by blast
  have "(0::real) < 1 / 2 ^ 48" by simp
  then have m: "v < 21" using v(3) by linarith
  have g: "go_int lib (Finite v) = \<lfloor>v\<rfloor>"
    using m v(2) by (subst go_int_finite) simp_all
  have "\<lfloor>v\<rfloor> = 20" using m v(2) by (simp add: floor_eq_iff)
  then show ?thesis using g by (simp add: fillBars_def v(1))
qed

lemma fillBars_floor:
  assumes "0 \<le> p" "p \<le> 100"
  shows "fillBars lib (Finite p) = \<lfloor>nearest (nearest (p / 100) * 20)\<rfloor>"
proof -
  obtain v where v: "scaled (Finite p) = Finite v" "0 \<le> v" "v \<le> 20"
    using scaled_in_range [OF assms] by blast
  from v(1) obtain q where "round64 (p / 100) = Finite q" "round64 (q * 20) = Finite v"
    by (auto simp: scaled_stages)
  then have "v = nearest (nearest (p / 100) * 20)" by (simp add: round64_Finite)
  moreover have "go_int lib (Finite v) = \<lfloor>v\<rfloor>" using v(2,3) by (subst go_int_finite) simp_all
  ultimately show ?thesis by (simp add: fillBars_def v(1))
qed

lemma int64_range: "- (2 ^ 63) \<le> int64 i \<and> int64 i < 2 ^ 63"
proof -
  have "0 \<le> (i + 2 ^ 63) mod 2 ^ 64" "(i + 2 ^ 63) mod 2 ^ 64 < 2 ^ 64"
    by simp_all
  then show ?thesis by (simp add: int64_def)
qed

lemma go_int_range: "- (2 ^ 63) \<le> go_int lib x \<and> go_int lib x < 2 ^ 63"
  using int64_range [of "intOfUnrepresentable lib x"]
  by (cases x) (simp_all add: go_int_def Let_def)

lemma progressBar_panics_iff:
  assumes "20 \<le> maxLen lib"
  shows "(\<exists>e. progressBar lib x st = Inl e) \<longleftrightarrow> fillBars lib x < 0 \<or> 20 < fillBars lib x"
proof -
  consider "fillBars lib x < 0" | "0 \<le> fillBars lib x" "fillBars lib x \<le> 20" | "20 < fillBars lib x"
    by linarith
  then show ?thesis
  proof cases
    case 1
    then show ?thesis by (simp add: progressBar_negative)
  next
    case 2
    then show ?thesis using assms by (simp add: progressBar_value)
  next
    case 3
    moreover have "fillBars lib x < 2 ^ 63" using go_int_range by (simp add: fillBars_def)
    ultimately show ?thesis by (simp add: progressBar_above(2))
  qed
qed

lemma fillBars_unrepresentable:
  "fillBars lib NaN = int64 (intOfUnrepresentable lib NaN)"
  "fillBars lib PlusInf = int64 (intOfUnrepresentable lib PlusInf)"
  "fillBars lib MinusInf = int64 (intOfUnrepresentable lib MinusInf)"
  by (simp_all add: fillBars_def scaled_def go_int_def totalBars_def)

lemma fillBars_examples:
  "fillBars lib (Finite 35) = 7" "fillBars lib (Finite 30) = 6"
  "fillBars lib (Finite (- 1)) = 0"
  "fillBars lib (Finite 105) = 21" "fillBars lib (Finite (- 5)) = - 1"
  "fillBars lib (Finite 100) = 20" "fillBars lib (Finite 0) = 0"
  by (simp_all add: fillBars_def scaled_35 scaled_30 scaled_minus_1 scaled_105
      scaled_minus_5 scaled_100 scaled_0 go_int_def ceiling_minus)

text \<open>
  One spacing below 30 the quotient rounds to the same number as for 30, and the product
  rounds up to 6: the bar has 6 filled segments, where exact arithmetic would give 5.
\<close>

lemma fillBars_below_30: "fillBars lib (Finite (30 - 1 / 2 ^ 48)) = 6"
  unfolding fillBars_def scaled_below_30 by (simp add: go_int_def)

lemma plainRender_simps:
  "plainRender NewStyle x = x"
  "plainRender (AlignRight NewStyle) x = x"
  "plainRender (Foreground c s) x = ''{'' @ Dark c @ '' '' @ x @ ''}''"
  by (simp_all add: plainRender_def NewStyle_def Foreground_def AlignRight_def)

lemma bars:
  "replicate 6 CHR ''|'' = ''||||||''" "replicate 7 CHR ''|'' = ''|||||||''"
  "replicate 13 CHR ''|'' = ''|||||||||||||''" "replicate 14 CHR ''|'' = ''||||||||||||||''"
  "replicate 20 CHR ''|'' = ''||||||||||||||||||||''"
  by (simp_all add: eval_nat_numeral)

lemma viewHeader_CPU_value:
  assumes "Idle (CpuUsage m) = Finite i" "0 \<le> i" "i \<le> 100" "20 \<le> maxLen lib"
  shows "viewHeader_CPU lib m =
           Inr (listItem lib m ''CPU''
                 (Render lib (baseStyle m)
                    (''['' @ Render lib (Foreground (Green Color) (baseStyle m))
                              (replicate (nat (fillBars lib (Finite (nearest (100 - i))))) CHR ''|'')
                         @ Render lib (Foreground (Secondary Color) (baseStyle m))
                             (replicate (20 - nat (fillBars lib (Finite (nearest (100 - i)))))
                                CHR ''|'') @ '']'')
                  @ '' '' @ fmtF lib 1 (Finite (nearest (100 - i)))) [''%''])"
proof -
  let ?u = "nearest (100 - i)"
  have u: "sub64 (Finite 100) (Idle (CpuUsage m)) = Finite ?u"
    using used_of_idle(1) [OF assms(2,3)] assms(1) by simp
  have "0 \<le> fillBars lib (Finite ?u) \<and> fillBars lib (Finite ?u) \<le> 20"
    using used_of_idle(2,3) [OF assms(2,3)] by (rule fillBars_range)
  then have "progressBar lib (Finite ?u) (baseStyle m) =
           Inr (Render lib (baseStyle m)
                 (''['' @ Render lib (Foreground (Green Color) (baseStyle m))
                           (replicate (nat (fillBars lib (Finite ?u))) CHR ''|'')
                      @ Render lib (Foreground (Secondary Color) (baseStyle m))
                           (replicate (20 - nat (fillBars lib (Finite ?u))) CHR ''|'') @ '']''))"
    using assms(4) by (intro progressBar_value) simp_all
  then show ?thesis by (simp add: viewHeader_CPU_def u)
qed

text \<open>
  Claim C10, as amended. For every percentage \<open>p\<close> with \<open>0 \<le> p \<le> 100\<close>, \<open>progressBar\<close>
  does not panic and returns a bar of exactly 20 segments between brackets, the first
  \<open>int(p / 100 * 20)\<close> of them filled, quotient and product rounded to \<open>float64\<close>, and the rest
  empty, provided \<open>strings.Repeat\<close> can build a string of 20 characters. For every \<open>p \<le> -5\<close>
  down to \<open>-10^19\<close> the first repeat count is negative and \<open>progressBar\<close> panics. For every
  \<open>p \<ge> 105\<close> up to \<open>10^19\<close> the second repeat count is negative and \<open>progressBar\<close> panics,
  unless the first call of \<open>strings.Repeat\<close> already failed for the length of its result.
  The conversion to \<open>int\<close> rounds toward zero: a \<open>float64\<close> strictly between -5 and 0 gives
  the counts 0 and 20, one strictly between 100 and 105 gives 20 and 0, and neither panics,
  so that among the \<open>float64\<close> values of magnitude up to \<open>10^19\<close> \<open>progressBar\<close> panics exactly
  for \<open>p \<le> -5\<close> and for \<open>p \<ge> 105\<close>. For every \<open>float64\<close> \<open>x\<close>, \<open>progressBar\<close> panics exactly
  when the first count is negative or above 20, and it returns the bar otherwise; for a NaN
  and the infinities that count is what the implementation makes of the conversion.
\<close>

theorem progressBar_bar_or_panic:
  "(0 \<le> p \<and> p \<le> 100 \<and> 20 \<le> maxLen lib \<longrightarrow>
      fillBars lib (Finite p) = \<lfloor>nearest (nearest (p / 100) * 20)\<rfloor> \<and>
      0 \<le> fillBars lib (Finite p) \<and> fillBars lib (Finite p) \<le> 20 \<and>
      nat (fillBars lib (Finite p)) + (20 - nat (fillBars lib (Finite p))) = 20 \<and>
      progressBar lib (Finite p) st =
        Inr (Render lib st
              (''['' @ Render lib (Foreground (Green Color) st)
                        (replicate (nat (fillBars lib (Finite p))) CHR ''|'')
                   @ Render lib (Foreground (Secondary Color) st)
                        (replicate (20 - nat (fillBars lib (Finite p))) CHR ''|'') @ '']''))) \<and>
   (p \<le> - 5 \<and> - (10 ^ 19) \<le> p \<longrightarrow>
      fillBars lib (Finite p) < 0 \<and> progressBar lib (Finite p) st = Inl NegativeRepeatCount) \<and>
   (105 \<le> p \<and> p \<le> 10 ^ 19 \<longrightarrow>
      20 < fillBars lib (Finite p) \<and> int64 (totalBars - fillBars lib (Finite p)) < 0 \<and>
      progressBar lib (Finite p) st =
        Inl (if maxLen lib < nat (fillBars lib (Finite p)) then OutputTooLong
             else NegativeRepeatCount)) \<and>
   (round64 p = Finite p \<and> \<bar>p\<bar> \<le> 10 ^ 19 \<and> 20 \<le> maxLen lib \<longrightarrow>
      ((\<exists>e. progressBar lib (Finite p) st = Inl e) \<longleftrightarrow> (p \<le> - 5 \<or> 105 \<le> p)) \<and>
      (- 5 < p \<and> p < 0 \<longrightarrow>
         fillBars lib (Finite p) = 0 \<and> int64 (totalBars - fillBars lib (Finite p)) = 20) \<and>
      (100 < p \<and> p < 105 \<longrightarrow>
         fillBars lib (Finite p) = 20 \<and> int64 (totalBars - fillBars lib (Finite p)) = 0)) \<and>
   (20 \<le> maxLen lib \<longrightarrow>
      ((\<exists>e. progressBar lib x st = Inl e) \<longleftrightarrow> (fillBars lib x < 0 \<or> 20 < fillBars lib x)) \<and>
      (0 \<le> fillBars lib x \<and> fillBars lib x \<le> 20 \<longrightarrow>
         progressBar lib x st =
           Inr (Render lib st
                 (''['' @ Render lib (Foreground (Green Color) st)
                           (replicate (nat (fillBars lib x)) CHR ''|'')
                      @ Render lib (Foreground (Secondary Color) st)
                           (replicate (20 - nat (fillBars lib x)) CHR ''|'') @ '']'')))) \<and>
   fillBars lib NaN = int64 (intOfUnrepresentable lib NaN) \<and>
   fillBars lib PlusInf = int64 (intOfUnrepresentable lib PlusInf) \<and>
   fillBars lib MinusInf = int64 (intOfUnrepresentable lib MinusInf)"
  (is "(?A1 \<longrightarrow> ?B1) \<and> (?A2 \<longrightarrow> ?B2) \<and> (?A3 \<longrightarrow> ?B3) \<and> (?A4 \<longrightarrow> ?B4) \<and>
       (?A5 \<longrightarrow> ?B5) \<and> ?C6 \<and> ?C7 \<and> ?C8")
proof -
  have in_range: "fillBars lib (Finite p) = \<lfloor>nearest (nearest (p / 100) * 20)\<rfloor> \<and>
      0 \<le> fillBars lib (Finite p) \<and> fillBars lib (Finite p) \<le> 20 \<and>
      nat (fillBars lib (Finite p)) + (20 - nat (fillBars lib (Finite p))) = 20 \<and>
      progressBar lib (Finite p) st =
        Inr (Render lib st
              (''['' @ Render lib (Foreground (Green Color) st)
                        (replicate (nat (fillBars lib (Finite p))) CHR ''|'')
                   @ Render lib (Foreground (Secondary Color) st)
                        (replicate (20 - nat (fillBars lib (Finite p))) CHR ''|'') @ '']''))"
    if r: "0 \<le> p \<and> p \<le> 100 \<and> 20 \<le> maxLen lib"
  proof -
    have b: "0 \<le> fillBars lib (Finite p)" "fillBars lib (Finite p) \<le> 20"
      using r fillBars_range [of p lib] by simp_all
    have "fillBars lib (Finite p) = \<lfloor>nearest (nearest (p / 100) * 20)\<rfloor>"
      using r by (intro fillBars_floor) simp_all
    moreover have "nat (fillBars lib (Finite p)) + (20 - nat (fillBars lib (Finite p))) = 20"
      using b by simp
    moreover have "progressBar lib (Finite p) st =
        Inr (Render lib st
              (''['' @ Render lib (Foreground (Green Color) st)
                        (replicate (nat (fillBars lib (Finite p))) CHR ''|'')
                   @ Render lib (Foreground (Secondary Color) st)
                        (replicate (20 - nat (fillBars lib (Finite p))) CHR ''|'') @ '']''))"
      using b r by (intro progressBar_value) simp_all
    ultimately show ?thesis using b by (intro conjI)
  qed
  have low: "fillBars lib (Finite p) < 0 \<and> progressBar lib (Finite p) st = Inl NegativeRepeatCount"
    if r: "p \<le> - 5 \<and> - (10 ^ 19) \<le> p"
  proof -
    have "fillBars lib (Finite p) < 0" using r fillBars_low [of p lib] by simp
    then show ?thesis by (simp add: progressBar_negative)
  qed
  have high: "20 < fillBars lib (Finite p) \<and> int64 (totalBars - fillBars lib (Finite p)) < 0 \<and>
      progressBar lib (Finite p) st =
        Inl (if maxLen lib < nat (fillBars lib (Finite p)) then OutputTooLong
             else NegativeRepeatCount)"
    if r: "105 \<le> p \<and> p \<le> 10 ^ 19"
  proof -
    have b: "20 < fillBars lib (Finite p)" "fillBars lib (Finite p) < 2 ^ 63"
      using r fillBars_high [of p lib] by simp_all
    show ?thesis using b progressBar_above [OF b] by simp
  qed
  have float: "((\<exists>e. progressBar lib (Finite p) st = Inl e) \<longleftrightarrow> (p \<le> - 5 \<or> 105 \<le> p)) \<and>
      (- 5 < p \<and> p < 0 \<longrightarrow>
         fillBars lib (Finite p) = 0 \<and> int64 (totalBars - fillBars lib (Finite p)) = 20) \<and>
      (100 < p \<and> p < 105 \<longrightarrow>
         fillBars lib (Finite p) = 20 \<and> int64 (totalBars - fillBars lib (Finite p)) = 0)"
    if r: "round64 p = Finite p \<and> \<bar>p\<bar> \<le> 10 ^ 19 \<and> 20 \<le> maxLen lib"
  proof -
    have n: "nearest p = p" using r by (simp add: round64_Finite)
    have i: "(\<exists>e. progressBar lib (Finite p) st = Inl e) \<longleftrightarrow>
             (fillBars lib (Finite p) < 0 \<or> 20 < fillBars lib (Finite p))"
      using r by (intro progressBar_panics_iff) simp
    consider "p \<le> - 5" | "- 5 < p" "p < 0" | "0 \<le> p" "p \<le> 100" | "100 < p" "p < 105" | "105 \<le> p"
      by linarith
    then show ?thesis
    proof cases
      case 1
      then have "fillBars lib (Finite p) < 0" using r fillBars_low [of p lib] by simp
      then show ?thesis using 1 i by simp
    next
      case 2
      have "fillBars lib (Finite p) = 0"
        using no_float64_above_minus_5 [OF n 2(1)] 2(2) by (intro fillBars_above_minus_5) simp_all
      then show ?thesis using 2 i by (simp add: totalBars_def int64_id)
    next
      case 3
      then have "0 \<le> fillBars lib (Finite p) \<and> fillBars lib (Finite p) \<le> 20"
        by (rule fillBars_range)
      then show ?thesis using 3 i by simp
    next
      case 4
      have "fillBars lib (Finite p) = 20"
        using no_float64_below_105 [OF n 4(2)] 4(1) by (intro fillBars_below_105) simp_all
      then show ?thesis using 4 i by (simp add: totalBars_def int64_id)
    next
      case 5
      then have "20 < fillBars lib (Finite p)" using r fillBars_high [of p lib] by simp
      then show ?thesis using 5 i by simp
    qed
  qed
  have general: ?B5 if r: ?A5
  proof (intro conjI impI)
    show "(\<exists>e. progressBar lib x st = Inl e) \<longleftrightarrow> (fillBars lib x < 0 \<or> 20 < fillBars lib x)"
      using r by (rule progressBar_panics_iff)
    assume "0 \<le> fillBars lib x \<and> fillBars lib x \<le> 20"
    then show "progressBar lib x st =
           Inr (Render lib st
                 (''['' @ Render lib (Foreground (Green Color) st)
                           (replicate (nat (fillBars lib x)) CHR ''|'')
                      @ Render lib (Foreground (Secondary Color) st)
                           (replicate (20 - nat (fillBars lib x)) CHR ''|'') @ '']''))"
      using r by (intro progressBar_value) simp_all
  qed
  have c1: "?A1 \<longrightarrow> ?B1" using in_range by (rule impI)
  have c2: "?A2 \<longrightarrow> ?B2" using low by (rule impI)
  have c3: "?A3 \<longrightarrow> ?B3" using high by (rule impI)
  have c4: "?A4 \<longrightarrow> ?B4" using float by (rule impI)
  have c5: "?A5 \<longrightarrow> ?B5" using general by (rule impI)
  from c1 c2 c3 c4 c5 fillBars_unrepresentable [of lib]
  show ?thesis by - (intro conjI; assumption)
qed

text \<open>
  At 35 the bar has 7 filled segments; at -5 and at 105 the call panics; at -1 it does not;
  with the conversion of amd64 it panics for a NaN.
\<close>

theorem progressBar_bar_or_panic_witness:
  "(0::real) \<le> 35 \<and> (35::real) \<le> 100 \<and> 20 \<le> maxLen plainLib \<and>
   progressBar plainLib (Finite 35) NewStyle = Inr ''[{#00FF00 |||||||}{#696969 |||||||||||||}]'' \<and>
   (- 5::real) \<le> - 5 \<and> - (10 ^ 19) \<le> (- 5::real) \<and>
   progressBar plainLib (Finite (- 5)) NewStyle = Inl NegativeRepeatCount \<and>
   (105::real) \<le> 105 \<and> (105::real) \<le> 10 ^ 19 \<and>
   progressBar plainLib (Finite 105) NewStyle = Inl NegativeRepeatCount \<and>
   round64 (- 1) = Finite (- 1) \<and> \<bar>- 1::real\<bar> \<le> 10 ^ 19 \<and> (- 5::real) < - 1 \<and> (- 1::real) < 0 \<and>
   fillBars plainLib (Finite (- 1)) = 0 \<and>
   (\<forall>e. progressBar plainLib (Finite (- 1)) NewStyle \<noteq> Inl e) \<and>
   fillBars plainLib NaN = - (2 ^ 63) \<and>
   (\<exists>e. progressBar plainLib NaN NewStyle = Inl e)"
proof -
  have h1: "(0::real) \<le> 35 \<and> (35::real) \<le> 100 \<and> 20 \<le> maxLen plainLib"
    by (simp add: plainLib_def)
  have a: "progressBar plainLib (Finite 35) NewStyle =
             Inr ''[{#00FF00 |||||||}{#696969 |||||||||||||}]''"
    using progressBar_bar_or_panic [of 35 plainLib NewStyle, THEN conjunct1, THEN mp, OF h1,
        THEN conjunct2, THEN conjunct2, THEN conjunct2, THEN conjunct2]
    by (simp add: fillBars_examples plainLib_def plainRender_simps Color_def bars)
  have h2: "(- 5::real) \<le> - 5 \<and> - (10 ^ 19) \<le> (- 5::real)" by simp
  have b: "progressBar plainLib (Finite (- 5)) NewStyle = Inl NegativeRepeatCount"
    using progressBar_bar_or_panic [of "- 5" plainLib NewStyle, THEN conjunct2, THEN conjunct1,
        THEN mp, OF h2, THEN conjunct2] .
  have h3: "(105::real) \<le> 105 \<and> (105::real) \<le> 10 ^ 19" by simp
  have c: "progressBar plainLib (Finite 105) NewStyle = Inl NegativeRepeatCount"
    using progressBar_bar_or_panic [of 105 plainLib NewStyle, THEN conjunct2, THEN conjunct2,
        THEN conjunct1, THEN mp, OF h3, THEN conjunct2, THEN conjunct2]
    by (simp add: fillBars_examples plainLib_def)
  have r: "round64 (- 1) = Finite (- 1)" by (simp add: round64_Finite nearest_consts)
  have h4: "round64 (- 1) = Finite (- 1) \<and> \<bar>- 1::real\<bar> \<le> 10 ^ 19 \<and> 20 \<le> maxLen plainLib"
    using r by (simp add: plainLib_def)
  note d = progressBar_bar_or_panic [of "- 1" plainLib NewStyle, THEN conjunct2, THEN conjunct2,
        THEN conjunct2, THEN conjunct1, THEN mp, OF h4]
  have d1: "\<forall>e. progressBar plainLib (Finite (- 1)) NewStyle \<noteq> Inl e"
    using d [THEN conjunct1] by simp
  have d2: "fillBars plainLib (Finite (- 1)) = 0"
    using d [THEN conjunct2, THEN conjunct1] by simp
  have h5: "20 \<le> maxLen plainLib" by (simp add: plainLib_def)
  note g = progressBar_bar_or_panic [of 0 plainLib NewStyle NaN]
  have n: "fillBars plainLib NaN = - (2 ^ 63)"
    using g [THEN conjunct2, THEN conjunct2, THEN conjunct2, THEN conjunct2, THEN conjunct2,
        THEN conjunct1]
    by (simp add: plainLib_def int64_def)
  have e: "\<exists>e. progressBar plainLib NaN NewStyle = Inl e"
    using g [THEN conjunct2, THEN conjunct2, THEN conjunct2, THEN conjunct2, THEN conjunct1,
        THEN mp, OF h5, THEN conjunct1] n
    by simp
  show ?thesis using h1 a b c r d1 d2 n e by simp
qed

text \<open>
  Claim C10 as stated fails: \<open>-1\<close> is a \<open>float64\<close> below the range, yet the repeat counts are
  0 and 20 and \<open>progressBar\<close> returns a bar.
\<close>

theorem progressBar_minus_one_no_panic:
  "(- 1::real) < 0 \<and> round64 (- 1) = Finite (- 1) \<and>
   fillBars plainLib (Finite (- 1)) = 0 \<and>
   int64 (totalBars - fillBars plainLib (Finite (- 1))) = 20 \<and>
   progressBar plainLib (Finite (- 1)) NewStyle = Inr ''[{#00FF00 }{#696969 ||||||||||||||||||||}]''"
  by (simp add: progressBar_value fillBars_examples totalBars_def plainLib_def plainRender_simps
      Color_def bars round64_Finite nearest_consts int64_id)

text \<open>
  Claim C6. The header computes the host-wide CPU usage as 100 minus the idle counter, with
  no division of the counter: for every idle counter \<open>i\<close> between 0 and 100 the number that
  is formatted and the percentage of the bar are both the \<open>float64\<close> nearest to \<open>100 - i\<close>,
  which differs from \<open>100 - i\<close> by at most \<open>2^-47\<close> and is \<open>100 - i\<close> itself when \<open>i\<close> is a
  multiple of \<open>2^-46\<close>, as every integer is. For an idle counter of 70 the header shows 30,
  and a bar with 6 of 20 segments filled.
\<close>

theorem viewHeader_CPU_used:
  assumes "Idle (CpuUsage m) = Finite i" "0 \<le> i" "i \<le> 100" "20 \<le> maxLen lib"
  shows "sub64 (Finite 100) (Idle (CpuUsage m)) = Finite (nearest (100 - i)) \<and>
     \<bar>nearest (100 - i) - (100 - i)\<bar> \<le> 1 / 2 ^ 47 \<and>
     ((\<exists>n::int. i = of_int n / 2 ^ 46) \<longrightarrow> nearest (100 - i) = 100 - i) \<and>
     viewHeader_CPU lib m =
       Inr (listItem lib m ''CPU''
             (Render lib (baseStyle m)
                (''['' @ Render lib (Foreground (Green Color) (baseStyle m))
                          (replicate (nat (fillBars lib (Finite (nearest (100 - i))))) CHR ''|'')
                     @ Render lib (Foreground (Secondary Color) (baseStyle m))
                         (replicate (20 - nat (fillBars lib (Finite (nearest (100 - i)))))
                            CHR ''|'') @ '']'')
              @ '' '' @ fmtF lib 1 (Finite (nearest (100 - i)))) [''%'']) \<and>
     (i = 70 \<longrightarrow>
        nearest (100 - i) = 30 \<and> fillBars lib (Finite (nearest (100 - i))) = 6 \<and>
        viewHeader_CPU lib m =
          Inr (listItem lib m ''CPU''
                (Render lib (baseStyle m)
                   (''['' @ Render lib (Foreground (Green Color) (baseStyle m)) ''||||||''
                        @ Render lib (Foreground (Secondary Color) (baseStyle m))
                            ''||||||||||||||'' @ '']'')
                 @ '' '' @ fmtF lib 1 (Finite 30)) [''%'']))"
proof (intro conjI impI)
  show "sub64 (Finite 100) (Idle (CpuUsage m)) = Finite (nearest (100 - i))"
    using used_of_idle(1) [OF assms(2,3)] assms(1) by simp
  show "\<bar>nearest (100 - i) - (100 - i)\<bar> \<le> 1 / 2 ^ 47"
    using assms(2,3) by (rule used_of_idle(4))
  show "nearest (100 - i) = 100 - i" if "\<exists>n::int. i = of_int n / 2 ^ 46"
    using that used_of_idle_exact [OF assms(2,3)] by blast
  show v: "viewHeader_CPU lib m =
       Inr (listItem lib m ''CPU''
             (Render lib (baseStyle m)
                (''['' @ Render lib (Foreground (Green Color) (baseStyle m))
                          (replicate (nat (fillBars lib (Finite (nearest (100 - i))))) CHR ''|'')
                     @ Render lib (Foreground (Secondary Color) (baseStyle m))
                         (replicate (20 - nat (fillBars lib (Finite (nearest (100 - i)))))
                            CHR ''|'') @ '']'')
              @ '' '' @ fmtF lib 1 (Finite (nearest (100 - i)))) [''%''])"
    using assms by (rule viewHeader_CPU_value)
  assume i: "i = 70"
  then show n: "nearest (100 - i) = 30" by (simp add: nearest_examples)
  then show "fillBars lib (Finite (nearest (100 - i))) = 6" by (simp add: fillBars_examples)
  then show "viewHeader_CPU lib m =
          Inr (listItem lib m ''CPU''
                (Render lib (baseStyle m)
                   (''['' @ Render lib (Foreground (Green Color) (baseStyle m)) ''||||||''
                        @ Render lib (Foreground (Secondary Color) (baseStyle m))
                            ''||||||||||||||'' @ '']'')
                 @ '' '' @ fmtF lib 1 (Finite 30)) [''%''])"
    using v n by (simp add: bars)
qed

text \<open>The item as the plain library renders it, for the idle counters 70 and 65.\<close>

theorem viewHeader_CPU_used_witness:
  "Idle (CpuUsage (m0\<lparr>CpuUsage := zeroCPU\<lparr>Idle := Finite 70\<rparr>\<rparr>)) = Finite 70 \<and>
   (0::real) \<le> 70 \<and> (70::real) \<le> 100 \<and> 20 \<le> maxLen plainLib \<and>
   viewHeader_CPU plainLib (m0\<lparr>CpuUsage := zeroCPU\<lparr>Idle := Finite 70\<rparr>\<rparr>) =
     Inr ''CPU: [{#00FF00 ||||||}{#696969 ||||||||||||||}] 30.0%'' \<and>
   Idle (CpuUsage (m0\<lparr>CpuUsage := zeroCPU\<lparr>Idle := Finite 65\<rparr>\<rparr>)) = Finite 65 \<and>
   (0::real) \<le> 65 \<and> (65::real) \<le> 100 \<and>
   viewHeader_CPU plainLib (m0\<lparr>CpuUsage := zeroCPU\<lparr>Idle := Finite 65\<rparr>\<rparr>) =
     Inr ''CPU: [{#00FF00 |||||||}{#696969 |||||||||||||}] 35.0%''"
proof -
  let ?mA = "m0\<lparr>CpuUsage := zeroCPU\<lparr>Idle := Finite 70\<rparr>\<rparr>"
  let ?mB = "m0\<lparr>CpuUsage := zeroCPU\<lparr>Idle := Finite 65\<rparr>\<rparr>"
  have l: "20 \<le> maxLen plainLib" by (simp add: plainLib_def)
  have iA: "Idle (CpuUsage ?mA) = Finite 70" by simp
  have iB: "Idle (CpuUsage ?mB) = Finite 65" by simp
  have a: "viewHeader_CPU plainLib ?mA =
             Inr ''CPU: [{#00FF00 ||||||}{#696969 ||||||||||||||}] 30.0%''"
    using viewHeader_CPU_used [OF iA _ _ l, THEN conjunct2, THEN conjunct2, THEN conjunct2,
        THEN conjunct1]
    by (simp add: nearest_examples fillBars_examples m0_def listItem_def plainLib_def
        plainRender_simps Color_def plainFmtF_def Let_def digits.simps rne_def bars)
  have b: "viewHeader_CPU plainLib ?mB =
             Inr ''CPU: [{#00FF00 |||||||}{#696969 |||||||||||||}] 35.0%''"
    using viewHeader_CPU_used [OF iB _ _ l, THEN conjunct2, THEN conjunct2, THEN conjunct2,
        THEN conjunct1]
    by (simp add: nearest_examples fillBars_examples m0_def listItem_def plainLib_def
        plainRender_simps Color_def plainFmtF_def Let_def digits.simps rne_def bars)
  show ?thesis using l a b by simp
qed

section \<open>Properties of the sampling pass of \<open>Update\<close>\<close>

lemma tickCPU_eq:
  "tickCPU prov x =
     (case snd (GetCPUStats prov) of
        Some err \<Rightarrow> (fst x, snd x @ [(''Could not get CPU info'', err)])
      | None \<Rightarrow> ((fst x)\<lparr>CpuUsage := fst (GetCPUStats prov)\<rparr>, snd x))"
  by (cases "GetCPUStats prov"; cases x) (simp add: tickCPU_def split: option.splits)

lemma tickMEM_eq:
  "tickMEM prov x =
     (case snd (GetMEMStats prov) of
        Some err \<Rightarrow> (fst x, snd x @ [(''Could not get memory info'', err)])
      | None \<Rightarrow> ((fst x)\<lparr>MemUsage := fst (GetMEMStats prov)\<rparr>, snd x))"
  by (cases "GetMEMStats prov"; cases x) (simp add: tickMEM_def split: option.splits)

lemma tickProcs_eq:
  "tickProcs lib prov x =
     (case snd (GetProcesses prov 5) of
        Some err \<Rightarrow> (fst x, snd x @ [(''Could not get processes'', err)])
      | None \<Rightarrow>
          ((fst x)\<lparr>processTable :=
               SetRows (map (processRow lib) (fst (GetProcesses prov 5)))
                 (processTable (fst x))\<rparr>,
           snd x))"
  by (cases "GetProcesses prov 5"; cases x) (simp add: tickProcs_def split: option.splits)

lemma Update_tick_eq:
  "Update lib prov (TickMsg t) m =
     (fst (tickProcs lib prov (tickMEM prov (tickCPU prov (m\<lparr>lastUpdate := t\<rparr>, [])))),
      Some TickEvery,
      snd (tickProcs lib prov (tickMEM prov (tickCPU prov (m\<lparr>lastUpdate := t\<rparr>, [])))))"
  by (simp add: Update_def tickEvery_def split: prod.splits)

lemma printPass_eq:
  "printPass prov =
     [LineCPU (fst (GetCPUStats prov)), LineMEM (fst (GetMEMStats prov)),
      LineProcs (fst (GetProcesses prov 10))]"
  by (simp add: printPass_def split: prod.splits)

lemma processRow_plain:
  "processRow plainLib procA = [''42'', ''init'', ''20.00%'', ''4096 B'', ''root'', ''2s'']"
  "processRow plainLib procB = [''7'', ''sh'', ''20.00%'', ''512 B'', ''root'', ''1s'']"
  "processRow plainLib procC = [''99'', ''cc'', ''300.00%'', ''1024 B'', ''dev'', ''9s'']"
  by (simp_all add: processRow_def plainLib_def plainFmtF_def fmtD_def digits.simps Let_def
      rne_def procA_def procB_def procC_def)

lemma m1_rows:
  "rows (processTable m1) =
     [processRow plainLib procC, processRow plainLib procB, processRow plainLib procA]"
  by (simp add: m1_def Update_tick_eq tickCPU_eq tickMEM_eq tickProcs_eq SetRows_def provOk_def
      m0_def)

lemma m1_cursor: "cursor (processTable m1) = 0"
  by (simp add: m1_def Update_tick_eq tickCPU_eq tickMEM_eq tickProcs_eq SetRows_def provOk_def
      m0_def)

lemma m1_usage:
  "CpuUsage m1 = zeroCPU\<lparr>Idle := Finite 70\<rparr>" "MemUsage m1 = zeroMEM\<lparr>UsedPercent := Finite 50\<rparr>"
  by (simp_all add: m1_def Update_tick_eq tickCPU_eq tickMEM_eq tickProcs_eq SetRows_def
      provOk_def m0_def)

text \<open>
  Claim C5, as amended. In the terminal frontend, when a read of one counter family (CPU,
  memory or process list) fails during the pass of a \<open>TickMsg\<close>, the error is logged, the
  pass is not aborted (the later reads still run and the next tick is requested), the model
  keeps the value it held for that family, and the other families are updated from the
  successful reads of the same pass. Nothing is logged when all reads succeed. There is no
  staleness flag: for each of the three families, the model after a failed read is the
  model after a successful read of the value already held; for the process list that is a
  read of processes whose rows are the rows held, with the cursor of the table not beyond
  the last of them, where \<open>SetRows\<close> leaves it. The pass changes nothing else: the model
  after it is the model before it with the time of the tick and, for each family read
  successfully, the value read, and the log holds one record for each failed read, in the
  order of the reads. The headless reporter keeps no value and no log: each of its passes
  prints what the three calls returned, error or not.
\<close>

theorem Update_tick_read_failure:
  assumes "Update lib prov (TickMsg t) m = (m', cmd, lg)"
  shows "cmd = Some TickEvery \<and> lastUpdate m' = t \<and>
     (case snd (GetCPUStats prov) of
        Some err \<Rightarrow> CpuUsage m' = CpuUsage m \<and> (''Could not get CPU info'', err) \<in> set lg
      | None \<Rightarrow> CpuUsage m' = fst (GetCPUStats prov)) \<and>
     (case snd (GetMEMStats prov) of
        Some err \<Rightarrow> MemUsage m' = MemUsage m \<and> (''Could not get memory info'', err) \<in> set lg
      | None \<Rightarrow> MemUsage m' = fst (GetMEMStats prov)) \<and>
     (case snd (GetProcesses prov 5) of
        Some err \<Rightarrow>
          processTable m' = processTable m \<and> (''Could not get processes'', err) \<in> set lg
      | None \<Rightarrow> rows (processTable m') = map (processRow lib) (fst (GetProcesses prov 5))) \<and>
     (lg = [] \<longleftrightarrow> snd (GetCPUStats prov) = None \<and> snd (GetMEMStats prov) = None \<and>
                  snd (GetProcesses prov 5) = None) \<and>
     (snd (GetCPUStats prov) \<noteq> None \<longrightarrow>
        m' = fst (Update lib (prov\<lparr>GetCPUStats := (CpuUsage m, None)\<rparr>) (TickMsg t) m)) \<and>
     (snd (GetMEMStats prov) \<noteq> None \<longrightarrow>
        m' = fst (Update lib (prov\<lparr>GetMEMStats := (MemUsage m, None)\<rparr>) (TickMsg t) m)) \<and>
     printPass prov =
       [LineCPU (fst (GetCPUStats prov)), LineMEM (fst (GetMEMStats prov)),
        LineProcs (fst (GetProcesses prov 10))] \<and>
     (snd (GetProcesses prov 5) \<noteq> None \<longrightarrow>
        (\<forall>procs. map (processRow lib) procs = rows (processTable m) \<and>
                 cursor (processTable m) \<le> int (length (rows (processTable m))) - 1 \<longrightarrow>
           m' = fst (Update lib (prov\<lparr>GetProcesses := (\<lambda>n. (procs, None))\<rparr>) (TickMsg t) m))) \<and>
     m' = m\<lparr>lastUpdate := t,
            CpuUsage := (case snd (GetCPUStats prov) of
                           None \<Rightarrow> fst (GetCPUStats prov) | Some err \<Rightarrow> CpuUsage m),
            MemUsage := (case snd (GetMEMStats prov) of
                           None \<Rightarrow> fst (GetMEMStats prov) | Some err \<Rightarrow> MemUsage m),
            processTable :=
              (case snd (GetProcesses prov 5) of
                 None \<Rightarrow> SetRows (map (processRow lib) (fst (GetProcesses prov 5)))
                           (processTable m)
               | Some err \<Rightarrow> processTable m)\<rparr> \<and>
     lg = (case snd (GetCPUStats prov) of
             None \<Rightarrow> [] | Some err \<Rightarrow> [(''Could not get CPU info'', err)]) @
          (case snd (GetMEMStats prov) of
             None \<Rightarrow> [] | Some err \<Rightarrow> [(''Could not get memory info'', err)]) @
          (case snd (GetProcesses prov 5) of
             None \<Rightarrow> [] | Some err \<Rightarrow> [(''Could not get processes'', err)])"
proof -
  have m': "m' = fst (tickProcs lib prov (tickMEM prov (tickCPU prov (m\<lparr>lastUpdate := t\<rparr>, []))))"
    and cmd: "cmd = Some TickEvery"
    and lg: "lg = snd (tickProcs lib prov (tickMEM prov (tickCPU prov (m\<lparr>lastUpdate := t\<rparr>, []))))"
    using assms by (simp_all add: Update_tick_eq)
  show ?thesis
    unfolding m' cmd lg Update_tick_eq
    by (cases "snd (GetCPUStats prov)"; cases "snd (GetMEMStats prov)";
        cases "snd (GetProcesses prov 5)")
       (simp_all add: tickCPU_eq tickMEM_eq tickProcs_eq SetRows_def printPass_eq)
qed

text \<open>
  A pass whose CPU read fails, one whose memory read fails and one whose process read
  fails: the family that failed keeps its value, the others are fresh, one record is logged,
  the next tick is requested. After the failed process read the model is the one that a
  successful read of the three processes shown would have left.
\<close>

theorem Update_tick_read_failure_witness:
  "Update plainLib provCpuFails (TickMsg 5) m0 =
     (m0\<lparr>lastUpdate := 5, MemUsage := zeroMEM\<lparr>UsedPercent := Finite 50\<rparr>,
         processTable := (processTable m0)
           \<lparr>rows := [[''99'', ''cc'', ''300.00%'', ''1024 B'', ''dev'', ''9s''],
                     [''7'', ''sh'', ''20.00%'', ''512 B'', ''root'', ''1s''],
                     [''42'', ''init'', ''20.00%'', ''4096 B'', ''root'', ''2s'']]\<rparr>\<rparr>,
      Some TickEvery, [(''Could not get CPU info'', ''no cpu'')]) \<and>
   snd (GetCPUStats provCpuFails) = Some ''no cpu'' \<and>
   CpuUsage (fst (Update plainLib provCpuFails (TickMsg 5) m0)) = CpuUsage m0 \<and>
   fst (snd (Update plainLib provCpuFails (TickMsg 5) m0)) = Some TickEvery \<and>
   snd (GetMEMStats provMemFails) = Some ''no mem'' \<and>
   snd (GetCPUStats provMemFails) = None \<and>
   MemUsage (fst (Update plainLib provMemFails (TickMsg 6) m0)) = MemUsage m0 \<and>
   CpuUsage (fst (Update plainLib provMemFails (TickMsg 6) m0)) = zeroCPU\<lparr>Idle := Finite 70\<rparr> \<and>
   snd (snd (Update plainLib provMemFails (TickMsg 6) m0)) =
     [(''Could not get memory info'', ''no mem'')] \<and>
   snd (GetProcesses provProcsFail 5) = Some ''no procs'' \<and>
   map (processRow plainLib) [procC, procB, procA] = rows (processTable m1) \<and>
   cursor (processTable m1) \<le> int (length (rows (processTable m1))) - 1 \<and>
   fst (Update plainLib provProcsFail (TickMsg 7) m1) =
     fst (Update plainLib provOk (TickMsg 7) m1) \<and>
   fst (Update plainLib provProcsFail (TickMsg 7) m1) = m1\<lparr>lastUpdate := 7\<rparr> \<and>
   snd (snd (Update plainLib provProcsFail (TickMsg 7) m1)) =
     [(''Could not get processes'', ''no procs'')]"
proof -
  let ?U = "Update plainLib provMemFails (TickMsg 6) m0"
  have v: "?U = (fst ?U, fst (snd ?U), snd (snd ?U))" by simp
  have em: "snd (GetMEMStats provMemFails) = Some ''no mem''"
    "snd (GetCPUStats provMemFails) = None"
    "fst (GetCPUStats provMemFails) = zeroCPU\<lparr>Idle := Finite 70\<rparr>"
    by (simp_all add: provMemFails_def provOk_def)
  have mm: "MemUsage (fst ?U) = MemUsage m0"
    using Update_tick_read_failure
      [OF v, THEN conjunct2, THEN conjunct2, THEN conjunct2, THEN conjunct1]
    by (simp add: em)
  have mc: "CpuUsage (fst ?U) = zeroCPU\<lparr>Idle := Finite 70\<rparr>"
    using Update_tick_read_failure [OF v, THEN conjunct2, THEN conjunct2, THEN conjunct1]
    by (simp add: em)
  have ml: "snd (snd ?U) = [(''Could not get memory info'', ''no mem'')]"
    by (simp add: Update_tick_eq tickCPU_eq tickMEM_eq tickProcs_eq provMemFails_def provOk_def)
  have u: "Update plainLib provCpuFails (TickMsg 5) m0 =
     (m0\<lparr>lastUpdate := 5, MemUsage := zeroMEM\<lparr>UsedPercent := Finite 50\<rparr>,
         processTable := (processTable m0)
           \<lparr>rows := [[''99'', ''cc'', ''300.00%'', ''1024 B'', ''dev'', ''9s''],
                     [''7'', ''sh'', ''20.00%'', ''512 B'', ''root'', ''1s''],
                     [''42'', ''init'', ''20.00%'', ''4096 B'', ''root'', ''2s'']]\<rparr>\<rparr>,
      Some TickEvery, [(''Could not get CPU info'', ''no cpu'')])"
    by (simp add: Update_tick_eq tickCPU_eq tickMEM_eq tickProcs_eq SetRows_def provCpuFails_def
        provOk_def processRow_plain m0_def)
  have e: "snd (GetCPUStats provCpuFails) = Some ''no cpu''"
    by (simp add: provCpuFails_def)
  have c: "CpuUsage (fst (Update plainLib provCpuFails (TickMsg 5) m0)) = CpuUsage m0"
    using Update_tick_read_failure [OF u, THEN conjunct2, THEN conjunct2, THEN conjunct1]
    by (simp add: e u)
  let ?W = "Update plainLib provProcsFail (TickMsg 7) m1"
  have w: "?W = (fst ?W, fst (snd ?W), snd (snd ?W))" by simp
  have ep: "snd (GetProcesses provProcsFail 5) = Some ''no procs''"
    by (simp add: provProcsFail_def)
  have pe: "provProcsFail\<lparr>GetProcesses := (\<lambda>n. ([procC, procB, procA], None))\<rparr> = provOk"
    by (simp add: provProcsFail_def provOk_def)
  have rw: "map (processRow plainLib) [procC, procB, procA] = rows (processTable m1)"
    by (simp add: m1_rows)
  have cu: "cursor (processTable m1) \<le> int (length (rows (processTable m1))) - 1"
    by (simp add: m1_rows m1_cursor)
  have same: "fst ?W = fst (Update plainLib provOk (TickMsg 7) m1)"
    using Update_tick_read_failure [OF w, THEN conjunct2, THEN conjunct2, THEN conjunct2,
        THEN conjunct2, THEN conjunct2, THEN conjunct2, THEN conjunct2, THEN conjunct2,
        THEN conjunct2, THEN conjunct1, THEN mp, THEN spec, THEN mp, of "[procC, procB, procA]"]
      ep rw cu
    by (simp add: pe)
  have held: "fst ?W = m1\<lparr>lastUpdate := 7\<rparr>"
    by (simp add: Update_tick_eq tickCPU_eq tickMEM_eq tickProcs_eq provProcsFail_def provOk_def
        m1_usage)
  have pl: "snd (snd ?W) = [(''Could not get processes'', ''no procs'')]"
    by (simp add: Update_tick_eq tickCPU_eq tickMEM_eq tickProcs_eq provProcsFail_def provOk_def)
  show ?thesis using u e c em(1,2) mm mc ml ep rw cu same held pl by simp
qed

text \<open>
  Claim C5 as stated fails. The pass whose CPU read fails leaves the same model as the pass
  whose CPU read succeeds with the value already held, so nothing in the model tells a stale
  value from a fresh one. In the headless reporter the pass after a failed CPU read prints
  the value that came with the error, not the value of the pass before.
\<close>

theorem Update_no_staleness_flag:
  "snd (GetCPUStats provCpuFails) = Some ''no cpu'' \<and>
   snd (GetCPUStats provCpuSame) = None \<and>
   fst (Update plainLib provCpuFails (TickMsg 5) m0) =
     fst (Update plainLib provCpuSame (TickMsg 5) m0) \<and>
   printSystemInfo [provOk, provCpuFails] =
     [LineCPU (zeroCPU\<lparr>Idle := Finite 70\<rparr>), LineMEM (zeroMEM\<lparr>UsedPercent := Finite 50\<rparr>),
      LineProcs [procC, procB, procA],
      LineCPU zeroCPU, LineMEM (zeroMEM\<lparr>UsedPercent := Finite 50\<rparr>),
      LineProcs [procC, procB, procA]] \<and>
   zeroCPU \<noteq> zeroCPU\<lparr>Idle := Finite 70\<rparr>"
  by (simp add: Update_tick_eq tickCPU_eq tickMEM_eq tickProcs_eq provCpuFails_def
      provCpuSame_def provOk_def printSystemInfo_def printPass_eq m0_def zeroCPU_def)

section \<open>Properties of the Delta Engine\<close>

lemma cpuPercent_total:
  "cpuPercent prior now r =
     Inr (case prior (rawPid r) of
            None \<Rightarrow> 0
          | Some (r0, t0) \<Rightarrow>
              if now - t0 \<le> 0 then 0
              else 100 * ((cumulativeCpuTime r - cumulativeCpuTime r0) / (now - t0)))"
  by (simp add: cpuPercent_def divideBy_def split: option.splits prod.splits)

lemma emitUsage_total: "\<exists>u. emitUsage fd prior now r = Inr u \<and> PID u = rawPid r"
  by (simp add: emitUsage_def cpuPercent_total)

lemma emitAll_total:
  "\<exists>us. emitAll fd prior now rs = Inr us \<and> map Inr us = map (emitUsage fd prior now) rs"
proof (induction rs)
  case Nil
  then show ?case by simp
next
  case (Cons r rs)
  obtain u where u: "emitUsage fd prior now r = Inr u" using emitUsage_total by blast
  from Cons obtain us where us: "emitAll fd prior now rs = Inr us"
      "map Inr us = map (emitUsage fd prior now) rs" by blast
  show ?case using u us by simp
qed

lemma emitAll_member:
  assumes "emitAll fd prior now rs = Inr us" "r \<in> set rs" "emitUsage fd prior now r = Inr u"
  shows "u \<in> set us"
proof -
  obtain us' where "emitAll fd prior now rs = Inr us'"
     and m: "map Inr us' = map (emitUsage fd prior now) rs" using emitAll_total by blast
  with assms(1) have "us' = us" by simp
  have "Inr u \<in> set (map (emitUsage fd prior now) rs)" using assms(2,3) by force
  then have "(Inr u :: engine_error + Process) \<in> set (map Inr us')" using m by simp
  then show ?thesis using \<open>us' = us\<close> by auto
qed

lemma observeAll_lookup_notin:
  "p \<notin> rawPid ` set rs \<Longrightarrow> observeAll now rs tbl p = tbl p"
  by (induction rs arbitrary: tbl) auto

lemma observeAll_lookup:
  "distinct (map rawPid rs) \<Longrightarrow> r \<in> set rs \<Longrightarrow> observeAll now rs tbl (rawPid r) = Some (r, now)"
proof (induction rs arbitrary: tbl)
  case Nil
  then show ?case by simp
next
  case (Cons a rs)
  show ?case
  proof (cases "r = a")
    case True
    with Cons.prems have "rawPid r \<notin> rawPid ` set rs" by auto
    then show ?thesis using True by (simp add: observeAll_lookup_notin)
  next
    case False
    with Cons show ?thesis by auto
  qed
qed

lemma dom_observeAll: "dom (observeAll now rs tbl) = dom tbl \<union> rawPid ` set rs"
  by (induction rs arbitrary: tbl) auto

lemma deltaPass_total:
  "\<exists>us. deltaPass fd prior now rs = Inr (us, observeAll now rs Map.empty) \<and>
        emitAll fd prior now rs = Inr us"
  using emitAll_total [of fd prior now rs] by (auto simp: deltaPass_def)

lemma deltaRun_last:
  "passes \<noteq> [] \<Longrightarrow>
   deltaRun fd tbl passes = Inr (observeAll (fst (last passes)) (snd (last passes)) Map.empty)"
proof (induction passes arbitrary: tbl)
  case Nil
  then show ?case by simp
next
  case (Cons p ps)
  obtain now rs where p: "p = (now, rs)" by (cases p)
  obtain us where us: "deltaPass fd tbl now rs = Inr (us, observeAll now rs Map.empty)"
    using deltaPass_total by blast
  show ?case
  proof (cases "ps = []")
    case True
    then show ?thesis using p us by simp
  next
    case False
    then show ?thesis using p us Cons.IH by simp
  qed
qed

text \<open>
  Claim C1. A pid observed in two consecutive passes, with cumulative CPU time \<open>c0\<close> at
  time \<open>t0\<close> and \<open>c1\<close> at time \<open>t1 > t0\<close>: the second pass emits for it a usage whose
  cpuPercent is \<open>100 * (c1 - c0) / (t1 - t0)\<close>. The value is exactly this quotient, so it is
  not clamped when it exceeds 100. The pids of a raw process list are distinct.
\<close>

theorem deltaPass_rate:
  assumes "deltaPass fd tbl t0 rs0 = Inr (us0, tbl1)"
      and "r0 \<in> set rs0" and "distinct (map rawPid rs0)"
      and "r1 \<in> set rs1" and "rawPid r1 = rawPid r0"
      and "t0 < t1"
  shows "\<exists>us1 tbl2 u. deltaPass fd tbl1 t1 rs1 = Inr (us1, tbl2) \<and>
           emitUsage fd tbl1 t1 r1 = Inr u \<and> u \<in> set us1 \<and> PID u = rawPid r1 \<and>
           CPUPercent u =
             100 * (cumulativeCpuTime r1 - cumulativeCpuTime r0) / (t1 - t0)"
proof -
  have tbl1: "tbl1 = observeAll t0 rs0 Map.empty"
    using assms(1) deltaPass_total [of fd tbl t0 rs0] by auto
  have prior: "tbl1 (rawPid r1) = Some (r0, t0)"
    unfolding tbl1 assms(5) using assms(3,2) by (rule observeAll_lookup)
  obtain us1 where us1: "deltaPass fd tbl1 t1 rs1 = Inr (us1, observeAll t1 rs1 Map.empty)"
      "emitAll fd tbl1 t1 rs1 = Inr us1"
    using deltaPass_total by blast
  obtain u where u: "emitUsage fd tbl1 t1 r1 = Inr u" "PID u = rawPid r1"
    using emitUsage_total by blast
  have "u \<in> set us1" using us1(2) assms(4) u(1) by (rule emitAll_member)
  moreover have "CPUPercent u = 100 * (cumulativeCpuTime r1 - cumulativeCpuTime r0) / (t1 - t0)"
    using u(1) prior assms(6) by (auto simp: emitUsage_def cpuPercent_total)
  ultimately show ?thesis using us1(1) u by blast
qed

text \<open>
  Claim C2. For a pid of the current raw process list that has no entry in the prior-sample
  table, the pass emits a usage with cpuPercent 0, whatever its cumulative CPU time, and
  the table after the pass holds the observation: the record and the timestamp of the pass.
\<close>

theorem deltaPass_first_sighting:
  assumes "tbl (rawPid r) = None" and "r \<in> set rs" and "distinct (map rawPid rs)"
  shows "\<exists>us tbl' u. deltaPass fd tbl now rs = Inr (us, tbl') \<and>
           emitUsage fd tbl now r = Inr u \<and> u \<in> set us \<and> PID u = rawPid r \<and>
           CPUPercent u = 0 \<and> tbl' (rawPid r) = Some (r, now)"
proof -
  obtain us where us: "deltaPass fd tbl now rs = Inr (us, observeAll now rs Map.empty)"
      "emitAll fd tbl now rs = Inr us"
    using deltaPass_total by blast
  obtain u where u: "emitUsage fd tbl now r = Inr u" "PID u = rawPid r"
    using emitUsage_total by blast
  have "u \<in> set us" using us(2) assms(2) u(1) by (rule emitAll_member)
  moreover have "CPUPercent u = 0"
    using u(1) assms(1) by (auto simp: emitUsage_def cpuPercent_total)
  moreover have "observeAll now rs Map.empty (rawPid r) = Some (r, now)"
    using assms(3,2) by (rule observeAll_lookup)
  ultimately show ?thesis using us(1) u by blast
qed

text \<open>
  Claim C3. For a pid whose elapsed wall time between its two observations is zero or
  negative, the pass emits cpuPercent 0, which is not negative. No pass ends in the error of
  a division by a divisor that is zero or negative: no such division is performed.
\<close>

theorem deltaPass_clock_anomaly:
  assumes "tbl (rawPid r) = Some (r0, t0)" and "now - t0 \<le> 0" and "r \<in> set rs"
  shows "(\<forall>e. deltaPass fd tbl now rs \<noteq> Inl e) \<and>
         (\<exists>us tbl' u. deltaPass fd tbl now rs = Inr (us, tbl') \<and>
            emitUsage fd tbl now r = Inr u \<and> u \<in> set us \<and> PID u = rawPid r \<and>
            CPUPercent u = 0)"
proof -
  obtain us where us: "deltaPass fd tbl now rs = Inr (us, observeAll now rs Map.empty)"
      "emitAll fd tbl now rs = Inr us"
    using deltaPass_total by blast
  obtain u where u: "emitUsage fd tbl now r = Inr u" "PID u = rawPid r"
    using emitUsage_total by blast
  have "u \<in> set us" using us(2) assms(3) u(1) by (rule emitAll_member)
  moreover have "CPUPercent u = 0"
    using u(1) assms(1,2) by (auto simp: emitUsage_def cpuPercent_total)
  ultimately show ?thesis using us(1) u by auto
qed

text \<open>
  Claim C9. After every sampling pass the domain of the prior-sample table is exactly the
  set of pids of the most recent raw process list: a pid absent from that list has no
  entry, whatever the table held before and however many passes came before. So the size
  of the table is at most the length of the most recent list, and equal to it when its
  pids are distinct.
\<close>

theorem deltaRun_table_is_last_list:
  assumes "passes \<noteq> []"
  shows "\<exists>tbl'. deltaRun fd tbl passes = Inr tbl' \<and>
           dom tbl' = rawPid ` set (snd (last passes)) \<and>
           (\<forall>p. p \<notin> rawPid ` set (snd (last passes)) \<longrightarrow> tbl' p = None) \<and>
           finite (dom tbl') \<and>
           card (dom tbl') \<le> length (snd (last passes)) \<and>
           (distinct (map rawPid (snd (last passes))) \<longrightarrow>
              card (dom tbl') = length (snd (last passes)))"
proof -
  let ?rs = "snd (last passes)"
  let ?t = "observeAll (fst (last passes)) ?rs Map.empty"
  have r: "deltaRun fd tbl passes = Inr ?t" using assms by (rule deltaRun_last)
  have d: "dom ?t = rawPid ` set ?rs" by (simp add: dom_observeAll)
  have n: "\<forall>p. p \<notin> rawPid ` set ?rs \<longrightarrow> ?t p = None" using d by blast
  have c: "card (dom ?t) \<le> length ?rs"
    unfolding d by (metis card_length length_map list.set_map)
  have e: "distinct (map rawPid ?rs) \<longrightarrow> card (dom ?t) = length ?rs"
    unfolding d by (metis distinct_card length_map list.set_map)
  show ?thesis using r d n c e by (intro exI[of _ ?t]) simp
qed

subsection \<open>The Delta Engine on concrete samples\<close>

lemma emitUsage_percent:
  "emitUsage fd prior now r = Inr u \<Longrightarrow> cpuPercent prior now r = Inr (CPUPercent u)"
  by (auto simp: emitUsage_def split: sum.splits)

lemma deltaPass_table:
  "deltaPass fd prior now rs = Inr (us, tbl') \<Longrightarrow> tbl' = observeAll now rs Map.empty"
  using deltaPass_total [of fd prior now rs] by auto

text \<open>
  The scenario of the specification: 10.0 s of CPU time at 0 s and 10.4 s at 2 s give 20.
  Six seconds of CPU time in two seconds give 300.
\<close>

theorem deltaPass_rate_witness:
  "rawA \<in> set [rawA, rawB] \<and> rawB \<in> set [rawA, rawB] \<and> distinct (map rawPid [rawA, rawB]) \<and>
   (0::real) < 2 \<and>
   cpuPercent (observeAll 0 [rawA, rawB] Map.empty) 2 (rawA\<lparr>cumulativeCpuTime := 10.4\<rparr>) =
     Inr 20 \<and>
   cpuPercent (observeAll 0 [rawA, rawB] Map.empty) 2 (rawB\<lparr>cumulativeCpuTime := 7\<rparr>) =
     Inr 300"
proof -
  let ?rs0 = "[rawA, rawB]"
  let ?a = "rawA\<lparr>cumulativeCpuTime := 10.4\<rparr>"
  let ?b = "rawB\<lparr>cumulativeCpuTime := 7\<rparr>"
  let ?tbl1 = "observeAll 0 ?rs0 Map.empty"
  obtain us0 where p0: "deltaPass plainDuration Map.empty 0 ?rs0 = Inr (us0, ?tbl1)"
    using deltaPass_total by blast
  have d: "distinct (map rawPid ?rs0)" by (simp add: rawA_def rawB_def)
  have "\<exists>us1 tbl2 u. deltaPass plainDuration ?tbl1 2 [?a, ?b] = Inr (us1, tbl2) \<and>
           emitUsage plainDuration ?tbl1 2 ?a = Inr u \<and> u \<in> set us1 \<and> PID u = rawPid ?a \<and>
           CPUPercent u = 100 * (cumulativeCpuTime ?a - cumulativeCpuTime rawA) / (2 - 0)"
    by (rule deltaPass_rate [OF p0 _ d]) simp_all
  then have a: "cpuPercent ?tbl1 2 ?a = Inr 20"
    by (auto dest!: emitUsage_percent simp: rawA_def)
  have "\<exists>us1 tbl2 u. deltaPass plainDuration ?tbl1 2 [?a, ?b] = Inr (us1, tbl2) \<and>
           emitUsage plainDuration ?tbl1 2 ?b = Inr u \<and> u \<in> set us1 \<and> PID u = rawPid ?b \<and>
           CPUPercent u = 100 * (cumulativeCpuTime ?b - cumulativeCpuTime rawB) / (2 - 0)"
    by (rule deltaPass_rate [OF p0 _ d]) simp_all
  then have b: "cpuPercent ?tbl1 2 ?b = Inr 300"
    by (auto dest!: emitUsage_percent simp: rawB_def)
  show ?thesis using a b d by simp
qed

text \<open>A first sighting with 10 s of cumulative CPU time.\<close>

theorem deltaPass_first_sighting_witness:
  "(Map.empty :: prior_table) (rawPid rawA) = None \<and> rawA \<in> set [rawA, rawB] \<and>
   distinct (map rawPid [rawA, rawB]) \<and> cumulativeCpuTime rawA = 10 \<and>
   cpuPercent Map.empty 3 rawA = Inr 0 \<and>
   observeAll 3 [rawA, rawB] Map.empty 42 = Some (rawA, 3)"
proof -
  have d: "distinct (map rawPid [rawA, rawB])" by (simp add: rawA_def rawB_def)
  have "\<exists>us tbl' u. deltaPass plainDuration Map.empty 3 [rawA, rawB] = Inr (us, tbl') \<and>
           emitUsage plainDuration Map.empty 3 rawA = Inr u \<and> u \<in> set us \<and>
           PID u = rawPid rawA \<and> CPUPercent u = 0 \<and> tbl' (rawPid rawA) = Some (rawA, 3)"
    by (rule deltaPass_first_sighting [where tbl=Map.empty and r=rawA, OF _ _ d]) simp_all
  then obtain us tbl' u where
    p: "deltaPass plainDuration Map.empty 3 [rawA, rawB] = Inr (us, tbl')"
    and u: "emitUsage plainDuration Map.empty 3 rawA = Inr u" "CPUPercent u = 0"
    and t: "tbl' (rawPid rawA) = Some (rawA, 3)"
    by blast
  have "cpuPercent Map.empty 3 rawA = Inr 0" using emitUsage_percent [OF u(1)] u(2) by simp
  moreover have "observeAll 3 [rawA, rawB] Map.empty 42 = Some (rawA, 3)"
    using t deltaPass_table [OF p] by (simp add: rawA_def)
  ultimately show ?thesis using d by (simp add: rawA_def)
qed

text \<open>A second observation two seconds before the first, and one at the same instant.\<close>

theorem deltaPass_clock_anomaly_witness:
  "[42 \<mapsto> (rawA, 5::real)] (rawPid (rawA\<lparr>cumulativeCpuTime := 11\<rparr>)) = Some (rawA, 5) \<and>
   (3::real) - 5 \<le> 0 \<and> (5::real) - 5 \<le> 0 \<and>
   cpuPercent [42 \<mapsto> (rawA, 5)] 3 (rawA\<lparr>cumulativeCpuTime := 11\<rparr>) = Inr 0 \<and>
   cpuPercent [42 \<mapsto> (rawA, 5)] 5 (rawA\<lparr>cumulativeCpuTime := 11\<rparr>) = Inr 0 \<and>
   deltaPass plainDuration [42 \<mapsto> (rawA, 5)] 3 [rawA\<lparr>cumulativeCpuTime := 11\<rparr>] \<noteq>
     Inl DivisorNotPositive"
proof -
  let ?r = "rawA\<lparr>cumulativeCpuTime := 11\<rparr>"
  let ?tbl = "[42 \<mapsto> (rawA, 5::real)]"
  have h: "?tbl (rawPid ?r) = Some (rawA, 5)" by (simp add: rawA_def)
  have a: "(\<forall>e. deltaPass plainDuration ?tbl 3 [?r] \<noteq> Inl e) \<and>
         (\<exists>us tbl' u. deltaPass plainDuration ?tbl 3 [?r] = Inr (us, tbl') \<and>
            emitUsage plainDuration ?tbl 3 ?r = Inr u \<and> u \<in> set us \<and> PID u = rawPid ?r \<and>
            CPUPercent u = 0)"
    by (rule deltaPass_clock_anomaly [where tbl="?tbl" and r="?r" and r0=rawA and ?t0.0=5, OF h])
      simp_all
  have b: "(\<forall>e. deltaPass plainDuration ?tbl 5 [?r] \<noteq> Inl e) \<and>
         (\<exists>us tbl' u. deltaPass plainDuration ?tbl 5 [?r] = Inr (us, tbl') \<and>
            emitUsage plainDuration ?tbl 5 ?r = Inr u \<and> u \<in> set us \<and> PID u = rawPid ?r \<and>
            CPUPercent u = 0)"
    by (rule deltaPass_clock_anomaly [where tbl="?tbl" and r="?r" and r0=rawA and ?t0.0=5, OF h])
      simp_all
  have "cpuPercent ?tbl 3 ?r = Inr 0" using a by (auto dest!: emitUsage_percent)
  moreover have "cpuPercent ?tbl 5 ?r = Inr 0" using b by (auto dest!: emitUsage_percent)
  moreover have "deltaPass plainDuration ?tbl 3 [?r] \<noteq> Inl DivisorNotPositive" using a by blast
  ultimately show ?thesis using h by simp
qed

text \<open>Two passes; pid 42 is gone in the second.\<close>

theorem deltaRun_table_is_last_list_witness:
  "[(0::real, [rawA, rawB]), (1, [rawB\<lparr>cumulativeCpuTime := 2\<rparr>])] \<noteq> [] \<and>
   42 \<notin> rawPid ` set [rawB\<lparr>cumulativeCpuTime := 2\<rparr>] \<and>
   distinct (map rawPid [rawB\<lparr>cumulativeCpuTime := 2\<rparr>]) \<and>
   (\<exists>tbl'. deltaRun plainDuration Map.empty
             [(0, [rawA, rawB]), (1, [rawB\<lparr>cumulativeCpuTime := 2\<rparr>])] = Inr tbl' \<and>
           dom tbl' = {7} \<and> tbl' 42 = None \<and> card (dom tbl') = 1)"
  using deltaRun_table_is_last_list
    [of "[(0::real, [rawA, rawB]), (1, [rawB\<lparr>cumulativeCpuTime := 2\<rparr>])]" plainDuration Map.empty]
  by (auto simp: rawA_def rawB_def)

section \<open>Properties of the Ranker\<close>

lemma ranksBefore_total: "ranksBefore a b \<or> ranksBefore b a"
  by (auto simp: ranksBefore_def)

lemma ranksBefore_trans: "ranksBefore a b \<Longrightarrow> ranksBefore b c \<Longrightarrow> ranksBefore a c"
  by (auto simp: ranksBefore_def)

lemma ranksBefore_antisym:
  "ranksBefore a b \<Longrightarrow> ranksBefore b a \<Longrightarrow> CPUPercent a = CPUPercent b \<and> PID a = PID b"
  by (auto simp: ranksBefore_def)

lemma set_insertRanked: "set (insertRanked u vs) = insert u (set vs)"
  by (induction vs) auto

lemma mset_insertRanked: "mset (insertRanked u vs) = add_mset u (mset vs)"
  by (induction vs) auto

lemma sorted_insertRanked:
  "sorted_wrt ranksBefore vs \<Longrightarrow> sorted_wrt ranksBefore (insertRanked u vs)"
proof (induction vs)
  case Nil
  then show ?case by simp
next
  case (Cons v vs)
  show ?case
  proof (cases "ranksBefore u v")
    case True
    then have "\<forall>w\<in>set vs. ranksBefore u w"
      using Cons.prems ranksBefore_trans by auto
    then show ?thesis using True Cons.prems by simp
  next
    case False
    then have "ranksBefore v u" using ranksBefore_total by blast
    then show ?thesis using False Cons by (auto simp: set_insertRanked)
  qed
qed

lemma mset_sortRanked: "mset (sortRanked us) = mset us"
  by (induction us) (simp_all add: mset_insertRanked)

lemma sorted_sortRanked: "sorted_wrt ranksBefore (sortRanked us)"
  by (induction us) (simp_all add: sorted_insertRanked)

lemma length_sortRanked: "length (sortRanked us) = length us"
  by (metis mset_sortRanked size_mset)

lemma set_sortRanked: "set (sortRanked us) = set us"
  by (metis mset_sortRanked set_mset_mset)

lemma sorted_wrt_take: "sorted_wrt P xs \<Longrightarrow> sorted_wrt P (take n xs)"
  by (metis append_take_drop_id sorted_wrt_append)

lemma ranked_unique:
  "sorted_wrt ranksBefore xs \<Longrightarrow> sorted_wrt ranksBefore ys \<Longrightarrow> mset xs = mset ys \<Longrightarrow>
   distinct (map PID xs) \<Longrightarrow> xs = ys"
proof (induction xs arbitrary: ys)
  case Nil
  then show ?case by simp
next
  case (Cons x xs)
  then obtain y ys' where ys: "ys = y # ys'" by (cases ys) auto
  have sets: "set (x # xs) = set (y # ys')" using Cons.prems(3) ys by (metis set_mset_mset)
  have xy: "x = y"
  proof (rule ccontr)
    assume ne: "x \<noteq> y"
    then have "y \<in> set xs" "x \<in> set ys'" using sets by auto
    then have "ranksBefore x y" "ranksBefore y x" using Cons.prems(1,2) ys by auto
    then have "PID x = PID y" using ranksBefore_antisym by blast
    moreover have "PID x \<notin> PID ` set xs" using Cons.prems(4) by simp
    ultimately show False using \<open>y \<in> set xs\<close> by force
  qed
  have "xs = ys'"
    using Cons.IH [of ys'] Cons.prems ys xy by simp
  then show ?case using ys xy by simp
qed

lemma sortRanked_input_order:
  assumes "mset us = mset us'" "distinct (map PID us)"
  shows "sortRanked us = sortRanked us'"
proof (rule ranked_unique)
  show "sorted_wrt ranksBefore (sortRanked us)" "sorted_wrt ranksBefore (sortRanked us')"
    by (rule sorted_sortRanked)+
  show "mset (sortRanked us) = mset (sortRanked us')" using assms(1) by (simp add: mset_sortRanked)
  have "mset (map PID (sortRanked us)) = mset (map PID us)"
    by (metis mset_map mset_sortRanked)
  then show "distinct (map PID (sortRanked us))" using assms(2) by (metis mset_eq_imp_distinct_iff)
qed

text \<open>
  Claim C4. \<open>Rank\<close> returns the first \<open>N\<close> entries of the usages sorted by descending
  cpuPercent, ties broken by ascending pid: its result is the prefix of length \<open>N\<close> of the
  full ranking, which is a permutation of the usages in that order. It returns
  \<open>min N M\<close> entries for \<open>M\<close> usages, so exactly \<open>M\<close>, and all of them, when \<open>N \<ge> M\<close>. As
  a function it has no state and no effect; when the pids are distinct its result does not
  depend on the order of its input either. The terminal frontend publishes the process list
  it gets for \<open>N = 5\<close> row by row, in the same order, so the table has at most 5 rows.
\<close>

theorem Rank_sorted_prefix:
  "length (Rank us n) = min n (length us) \<and>
   (length us \<le> n \<longrightarrow> length (Rank us n) = length us \<and> mset (Rank us n) = mset us) \<and>
   Rank us n = take n (Rank us (length us)) \<and>
   mset (Rank us (length us)) = mset us \<and>
   sorted_wrt ranksBefore (Rank us n) \<and>
   (\<forall>i j. i < j \<and> j < length (Rank us n) \<longrightarrow>
      CPUPercent (Rank us n ! j) < CPUPercent (Rank us n ! i) \<or>
      (CPUPercent (Rank us n ! i) = CPUPercent (Rank us n ! j) \<and>
       PID (Rank us n ! i) \<le> PID (Rank us n ! j))) \<and>
   (\<forall>us'. mset us' = mset us \<and> distinct (map PID us) \<longrightarrow> Rank us' n = Rank us n) \<and>
   (\<forall>lib prov t m. GetProcesses prov 5 = (Rank us 5, None) \<longrightarrow>
      rows (processTable (fst (Update lib prov (TickMsg t) m))) =
        map (processRow lib) (Rank us 5) \<and>
      length (rows (processTable (fst (Update lib prov (TickMsg t) m)))) \<le> 5)"
proof -
  have s: "sorted_wrt ranksBefore (Rank us n)"
    unfolding Rank_def by (rule sorted_wrt_take) (rule sorted_sortRanked)
  have l: "length (Rank us n) = min n (length us)"
    by (simp add: Rank_def length_sortRanked min.commute)
  have f: "Rank us (length us) = sortRanked us"
    by (simp add: Rank_def length_sortRanked)
  have a: "length us \<le> n \<longrightarrow> length (Rank us n) = length us \<and> mset (Rank us n) = mset us"
    by (simp add: Rank_def length_sortRanked mset_sortRanked)
  have p: "Rank us n = take n (Rank us (length us))"
    unfolding f by (simp add: Rank_def)
  have m: "mset (Rank us (length us)) = mset us"
    unfolding f by (rule mset_sortRanked)
  have ij: "\<forall>i j. i < j \<and> j < length (Rank us n) \<longrightarrow>
      CPUPercent (Rank us n ! j) < CPUPercent (Rank us n ! i) \<or>
      (CPUPercent (Rank us n ! i) = CPUPercent (Rank us n ! j) \<and>
       PID (Rank us n ! i) \<le> PID (Rank us n ! j))"
    using s by (auto simp: sorted_wrt_iff_nth_less ranksBefore_def)
  have d: "\<forall>us'. mset us' = mset us \<and> distinct (map PID us) \<longrightarrow> Rank us' n = Rank us n"
  proof (intro allI impI)
    fix us'
    assume h: "mset us' = mset us \<and> distinct (map PID us)"
    have "sortRanked us = sortRanked us'"
    proof (rule sortRanked_input_order)
      show "mset us = mset us'" using h by simp
      show "distinct (map PID us)" using h by simp
    qed
    then show "Rank us' n = Rank us n" by (simp add: Rank_def)
  qed
  have u: "\<forall>lib prov t m. GetProcesses prov 5 = (Rank us 5, None) \<longrightarrow>
      rows (processTable (fst (Update lib prov (TickMsg t) m))) =
        map (processRow lib) (Rank us 5) \<and>
      length (rows (processTable (fst (Update lib prov (TickMsg t) m)))) \<le> 5"
    by (simp add: Update_tick_eq tickProcs_eq SetRows_def Rank_def)
  show ?thesis by (intro conjI l a p m s ij d u)
qed

lemma Rank_examples:
  "Rank [procA, procB, procC] 2 = [procC, procB]"
  "Rank [procA, procB, procC] 5 = [procC, procB, procA]"
  by (simp_all add: Rank_def ranksBefore_def procA_def procB_def procC_def)

lemma processRow_examples:
  "map (processRow plainLib) [procC, procB, procA] =
     [[''99'', ''cc'', ''300.00%'', ''1024 B'', ''dev'', ''9s''],
      [''7'', ''sh'', ''20.00%'', ''512 B'', ''root'', ''1s''],
      [''42'', ''init'', ''20.00%'', ''4096 B'', ''root'', ''2s'']]"
  by (simp add: processRow_plain)

text \<open>
  Three usages, two of them tied at 20: the tie goes to the lower pid, and the order of the
  input does not matter.
\<close>

theorem Rank_sorted_prefix_witness:
  "Rank [procA, procB, procC] 2 = [procC, procB] \<and>
   Rank [procA, procB, procC] 5 = [procC, procB, procA] \<and>
   length [procA, procB, procC] \<le> 5 \<and>
   mset [procC, procA, procB] = mset [procA, procB, procC] \<and>
   distinct (map PID [procA, procB, procC]) \<and>
   Rank [procC, procA, procB] 2 = [procC, procB] \<and>
   GetProcesses provOk 5 = (Rank [procA, procB, procC] 5, None) \<and>
   rows (processTable (fst (Update plainLib provOk (TickMsg 1) m0))) =
     [[''99'', ''cc'', ''300.00%'', ''1024 B'', ''dev'', ''9s''],
      [''7'', ''sh'', ''20.00%'', ''512 B'', ''root'', ''1s''],
      [''42'', ''init'', ''20.00%'', ''4096 B'', ''root'', ''2s'']]"
proof -
  note r = Rank_sorted_prefix [of "[procA, procB, procC]"]
  have d: "distinct (map PID [procA, procB, procC])"
    by (simp add: procA_def procB_def procC_def)
  have ms: "mset [procC, procA, procB] = mset [procA, procB, procC]" by simp
  have g: "GetProcesses provOk 5 = (Rank [procA, procB, procC] 5, None)"
    by (simp add: provOk_def Rank_examples)
  have o: "Rank [procC, procA, procB] 2 = Rank [procA, procB, procC] 2"
    using r [of 2] ms d by blast
  have "rows (processTable (fst (Update plainLib provOk (TickMsg 1) m0))) =
        map (processRow plainLib) (Rank [procA, procB, procC] 5)"
    using r [of 5] g by blast
  then have w: "rows (processTable (fst (Update plainLib provOk (TickMsg 1) m0))) =
     [[''99'', ''cc'', ''300.00%'', ''1024 B'', ''dev'', ''9s''],
      [''7'', ''sh'', ''20.00%'', ''512 B'', ''root'', ''1s''],
      [''42'', ''init'', ''20.00%'', ''4096 B'', ''root'', ''2s'']]"
    by (simp only: Rank_examples processRow_examples)
  show ?thesis using Rank_examples d ms g o w by simp
qed

section \<open>Properties of the two loops\<close>

lemma printPass_nth:
  "printPass prov ! 0 = LineCPU (fst (GetCPUStats prov))"
  "printPass prov ! 1 = LineMEM (fst (GetMEMStats prov))"
  "printPass prov ! 2 = LineProcs (fst (GetProcesses prov 10))"
  by (simp_all add: printPass_eq)

lemma printPass_take:
  "take 1 (printPass prov) = [LineCPU (fst (GetCPUStats prov))]"
  "take 2 (printPass prov) = [LineCPU (fst (GetCPUStats prov)), LineMEM (fst (GetMEMStats prov))]"
  by (simp_all add: printPass_eq)

lemma printSystemInfo_snoc:
  "printSystemInfo (ps @ [prov]) = printSystemInfo ps @ printPass prov"
  by (simp add: printSystemInfo_def)

lemma consistent_init: "consistent headless_init"
  by (simp add: consistent_def headless_init_def inFlight_def partialPass_def printSystemInfo_def)

lemma consistent_fire:
  assumes c: "consistent s" and f: "fire a s = Some s'"
  shows "consistent s'"
proof (cases a)
  case TickFires
  with f have s': "s' = s\<lparr>tickBuf := min 1 (tickBuf s + 1)\<rparr>"
    by (simp split: if_splits)
  show ?thesis using c unfolding s' consistent_def inFlight_def partialPass_def by auto
next
  case SignalArrives
  with f have s': "s' = s\<lparr>stopBuf := min 1 (stopBuf s + 1)\<rparr>"
    by (simp split: if_splits)
  show ?thesis using c unfolding s' consistent_def inFlight_def partialPass_def by auto
next
  case TakeTick
  with f have s': "s' = s\<lparr>mainPc := MSend, tickBuf := tickBuf s - 1\<rparr>"
    and g: "mainPc s = MSelect"
    by (simp_all split: if_splits)
  show ?thesis using c g unfolding s' consistent_def inFlight_def partialPass_def by auto
next
  case (SendTick prov)
  with f have s': "s' = s\<lparr>mainPc := MSelect, printerPc := PPrintCPU, cur := Some prov,
                    passesStarted := passesStarted s + 1\<rparr>"
    and g: "mainPc s = MSend" "printerPc s = PRange" "\<not> closed s"
    by (simp_all split: if_splits)
  show ?thesis using c g unfolding s' consistent_def inFlight_def partialPass_def by auto
next
  case PrintCPU
  with f obtain prov where s': "s' = s\<lparr>printerPc := PPrintMEM,
        stdout := stdout s @ [printPass prov ! 0]\<rparr>"
    and g: "cur s = Some prov" "printerPc s = PPrintCPU"
    by (auto split: if_splits option.splits)
  show ?thesis using c g unfolding s' consistent_def inFlight_def partialPass_def
    by (auto simp: printPass_eq)
next
  case PrintMEM
  with f obtain prov where s': "s' = s\<lparr>printerPc := PPrintProcs,
        stdout := stdout s @ [printPass prov ! 1]\<rparr>"
    and g: "cur s = Some prov" "printerPc s = PPrintMEM"
    by (auto split: if_splits option.splits)
  show ?thesis using c g unfolding s' consistent_def inFlight_def partialPass_def
    by (auto simp: printPass_eq)
next
  case PrintProcs
  with f obtain prov where s': "s' = s\<lparr>printerPc := PRange,
        stdout := stdout s @ [printPass prov ! 2], cur := None,
        passesFinished := passesFinished s + 1, finished := finished s @ [prov]\<rparr>"
    and g: "cur s = Some prov" "printerPc s = PPrintProcs"
    by (auto split: if_splits option.splits)
  show ?thesis using c g unfolding s' consistent_def inFlight_def partialPass_def
    by (auto simp: printSystemInfo_snoc printPass_eq)
next
  case TakeStop
  with f have s': "s' = s\<lparr>mainPc := MWait, stopBuf := stopBuf s - 1, closed := True,
                    stdout := stdout s @ [LineStop]\<rparr>"
    and g: "mainPc s = MSelect"
    by (simp_all split: if_splits)
  show ?thesis using c g unfolding s' consistent_def inFlight_def partialPass_def by auto
next
  case LeaveLoop
  with f have s': "s' = s\<lparr>printerPc := PDone\<rparr>"
    and g: "printerPc s = PRange" "closed s"
    by (simp_all split: if_splits)
  show ?thesis using c g unfolding s' consistent_def inFlight_def partialPass_def
    by auto
next
  case MainReturns
  with f have s': "s' = s\<lparr>mainPc := MExited, tickerStopped := True, exitCode := Some 0\<rparr>"
    and g: "mainPc s = MWait" "printerPc s = PDone"
    by (simp_all split: if_splits)
  show ?thesis using c g unfolding s' consistent_def inFlight_def partialPass_def by auto
qed

lemma consistent_run: "consistent s \<Longrightarrow> run as s = Some s' \<Longrightarrow> consistent s'"
proof (induction as arbitrary: s)
  case Nil
  then show ?case by simp
next
  case (Cons a as)
  then show ?case by (auto split: option.splits dest: consistent_fire)
qed

lemma reachable_consistent: "reachable s \<Longrightarrow> consistent s"
  unfolding reachable_def using consistent_run [OF consistent_init] by blast

lemma closed_fire:
  "closed s \<Longrightarrow> fire a s = Some s' \<Longrightarrow> closed s' \<and> passesStarted s' = passesStarted s"
  by (cases a) (auto split: if_splits option.splits)

lemma closed_run:
  "closed s \<Longrightarrow> run as s = Some s' \<Longrightarrow> closed s' \<and> passesStarted s' = passesStarted s"
proof (induction as arbitrary: s)
  case Nil
  then show ?case by simp
next
  case (Cons a as)
  from Cons.prems obtain s1 where f: "fire a s = Some s1" and r: "run as s1 = Some s'"
    by (auto split: option.splits)
  from closed_fire [OF Cons.prems(1) f] Cons.IH [OF _ r] show ?case by simp
qed

lemma shutdown_enabled:
  assumes "consistent s" "closed s" "mainPc s \<noteq> MExited"
  shows "\<exists>a. \<not> isEnv a \<and> fire a s \<noteq> None"
proof (cases "printerPc s")
  case PRange
  then have "\<not> isEnv LeaveLoop \<and> fire LeaveLoop s \<noteq> None" using assms by (simp add: isEnv_def)
  then show ?thesis by blast
next
  case PPrintCPU
  then have "\<not> isEnv PrintCPU \<and> fire PrintCPU s \<noteq> None"
    using assms by (auto simp: isEnv_def consistent_def split: option.splits)
  then show ?thesis by blast
next
  case PPrintMEM
  then have "\<not> isEnv PrintMEM \<and> fire PrintMEM s \<noteq> None"
    using assms by (auto simp: isEnv_def consistent_def split: option.splits)
  then show ?thesis by blast
next
  case PPrintProcs
  then have "\<not> isEnv PrintProcs \<and> fire PrintProcs s \<noteq> None"
    using assms by (auto simp: isEnv_def consistent_def split: option.splits)
  then show ?thesis by blast
next
  case PDone
  then have "\<not> isEnv MainReturns \<and> fire MainReturns s \<noteq> None"
    using assms by (auto simp: isEnv_def consistent_def)
  then show ?thesis by blast
qed

lemma shutdown_decreases:
  assumes "consistent s" "closed s" "fire a s = Some s'"
  shows "if isEnv a then stepsToExit s' = stepsToExit s else stepsToExit s' < stepsToExit s"
  using assms
  by (cases a; cases "mainPc s"; cases "printerPc s")
     (auto simp: isEnv_def stepsToExit_def consistent_def split: if_splits option.splits)

lemma exited_stuck:
  assumes "consistent s" "mainPc s = MExited"
  shows "fire a s = None"
  using assms by (cases a) (auto simp: consistent_def split: option.splits)

lemma Update_ticks:
  "ticksOf (fst (snd (Update lib prov msg m))) = (if isTick msg then 1 else 0)"
  by (cases msg) (simp_all add: Update_def ticksOf_def isTick_def tickEvery_def Let_def
      split: prod.splits)

lemma tui_deliver_pending:
  assumes "tui_deliver lib e s = Some s'"
  shows "pendingTicks s' = pendingTicks s"
proof -
  obtain prov msg where e: "e = (prov, msg)" by (cases e)
  obtain m' cmd lg where u: "Update lib prov msg (tuiModel s) = (m', cmd, lg)"
    by (cases "Update lib prov msg (tuiModel s)")
  have t: "ticksOf cmd = (if isTick msg then 1 else 0)"
    using Update_ticks [of lib prov msg "tuiModel s"] u by simp
  show ?thesis using assms e u t by (auto simp: tui_deliver_def split: if_splits)
qed

lemma tui_run_pending:
  "tui_run lib es s = Some t \<Longrightarrow> pendingTicks t = pendingTicks s"
proof (induction es arbitrary: s)
  case Nil
  then show ?case by simp
next
  case (Cons e es)
  then show ?case by (auto split: option.splits dest: tui_deliver_pending)
qed

lemma tui_init_pending: "pendingTicks (tui_init m) = 1"
  by (simp add: tui_init_def ticksOf_def Init_def tickEvery_def)

text \<open>
  Claim C8. No pass starts while another is in flight: in every state of a run of the
  headless reporter at most one pass has started and not finished, and the hand-over of a
  tick to the printing goroutine happens only when none is in flight. Ticks that fire
  during a pass are not queued without bound: \<open>ticker.C\<close> holds at most one, the blocked
  send of \<open>main\<close> at most one more, and a tick that finds the buffer full changes nothing.
  In the terminal frontend \<open>Update\<close> runs the pass inside the handling of the \<open>TickMsg\<close>
  and requests the next tick only when it returns, exactly one for a \<open>TickMsg\<close> and none
  for any other message, so exactly one tick is outstanding at any time.
\<close>

theorem no_overlapping_pass:
  assumes "reachable s"
  shows "inFlight s \<le> 1 \<and> passesStarted s = passesFinished s + inFlight s \<and>
         (\<forall>prov s'. fire (SendTick prov) s = Some s' \<longrightarrow> inFlight s = 0 \<and> inFlight s' = 1) \<and>
         tickBuf s \<le> 1 \<and> queuedTicks s \<le> 2 \<and>
         (\<forall>s'. fire TickFires s = Some s' \<longrightarrow> tickBuf s' = 1 \<and> (tickBuf s = 1 \<longrightarrow> s' = s)) \<and>
         (\<forall>lib m es t. tui_run lib es (tui_init m) = Some t \<longrightarrow> pendingTicks t = 1) \<and>
         (\<forall>lib prov msg m.
            ticksOf (fst (snd (Update lib prov msg m))) = (if isTick msg then 1 else 0))"
proof -
  have c: "consistent s" using assms by (rule reachable_consistent)
  have 1: "inFlight s \<le> 1" by (simp add: inFlight_def)
  have 2: "passesStarted s = passesFinished s + inFlight s" using c by (simp add: consistent_def)
  have 3: "\<forall>prov s'. fire (SendTick prov) s = Some s' \<longrightarrow> inFlight s = 0 \<and> inFlight s' = 1"
    by (auto simp: inFlight_def split: if_splits)
  have 4: "tickBuf s \<le> 1" using c by (simp add: consistent_def)
  have 5: "queuedTicks s \<le> 2" using 4 by (simp add: queuedTicks_def)
  have 6: "\<forall>s'. fire TickFires s = Some s' \<longrightarrow> tickBuf s' = 1 \<and> (tickBuf s = 1 \<longrightarrow> s' = s)"
    using 4 by (auto split: if_splits)
  have 7: "\<forall>lib m es t. tui_run lib es (tui_init m) = Some t \<longrightarrow> pendingTicks t = 1"
    using tui_run_pending tui_init_pending by simp
  have 8: "\<forall>lib prov msg m.
            ticksOf (fst (snd (Update lib prov msg m))) = (if isTick msg then 1 else 0)"
    using Update_ticks by blast
  show ?thesis by (intro conjI 1 2 3 4 5 6 7 8)
qed

lemma stepsToExit_le: "stepsToExit s \<le> 5"
  by (cases "mainPc s"; cases "printerPc s") (simp_all add: stepsToExit_def)

lemma shutdown_completes:
  "consistent s \<Longrightarrow> closed s \<Longrightarrow>
   \<exists>as s'. (\<forall>a\<in>set as. \<not> isEnv a) \<and> length as \<le> stepsToExit s \<and>
           run as s = Some s' \<and> mainPc s' = MExited"
proof (induction "stepsToExit s" arbitrary: s rule: less_induct)
  case less
  show ?case
  proof (cases "mainPc s = MExited")
    case True
    then have "(\<forall>a\<in>set []. \<not> isEnv a) \<and> length ([] :: action list) \<le> stepsToExit s \<and>
           run [] s = Some s \<and> mainPc s = MExited" by simp
    then show ?thesis by blast
  next
    case False
    obtain a where a: "\<not> isEnv a" "fire a s \<noteq> None"
      using shutdown_enabled [OF less.prems False] by blast
    then obtain s1 where s1: "fire a s = Some s1" by blast
    have d: "stepsToExit s1 < stepsToExit s"
      using shutdown_decreases [OF less.prems s1] a(1) by simp
    have c1: "consistent s1" using less.prems(1) s1 by (rule consistent_fire)
    have cl1: "closed s1" using closed_fire [OF less.prems(2) s1] by simp
    from less.hyps [OF d c1 cl1] obtain as s' where
      as: "\<forall>a\<in>set as. \<not> isEnv a" "length as \<le> stepsToExit s1"
        "run as s1 = Some s'" "mainPc s' = MExited"
      by blast
    have "(\<forall>b\<in>set (a # as). \<not> isEnv b) \<and> length (a # as) \<le> stepsToExit s \<and>
           run (a # as) s = Some s' \<and> mainPc s' = MExited"
      using a(1) as d s1 by simp
    then show ?thesis by blast
  qed
qed

lemma shutdown_bounded:
  "consistent s \<Longrightarrow> closed s \<Longrightarrow> run as s = Some s' \<Longrightarrow>
   length (filter (\<lambda>a. \<not> isEnv a) as) + stepsToExit s' \<le> stepsToExit s"
proof (induction as arbitrary: s)
  case Nil
  then show ?case by simp
next
  case (Cons a as)
  from Cons.prems(3) obtain s1 where s1: "fire a s = Some s1" and r: "run as s1 = Some s'"
    by (auto split: option.splits)
  have c1: "consistent s1" using Cons.prems(1) s1 by (rule consistent_fire)
  have cl1: "closed s1" using closed_fire [OF Cons.prems(2) s1] by simp
  have ih: "length (filter (\<lambda>a. \<not> isEnv a) as) + stepsToExit s' \<le> stepsToExit s1"
    using Cons.IH [OF c1 cl1 r] .
  show ?case using ih shutdown_decreases [OF Cons.prems(1,2) s1] by (cases "isEnv a") simp_all
qed

text \<open>
  Claim C7, as amended. In the headless reporter the shutdown request takes effect when
  \<open>main\<close> receives the signal from \<open>stopChan\<close>, which is the only way \<open>printChan\<close> gets
  closed. From then on no further pass starts, whatever happens next. While \<open>main\<close> has not
  returned, some step of the program can always happen, every step of the program brings
  the return of \<open>main\<close> closer and no step of the environment moves it away: the program
  alone can finish the pass in flight and return from \<open>main\<close>, and it takes at most five
  steps in any run, however many ticks and signals come in between. When \<open>main\<close> has
  returned, the printing goroutine has ended, every pass that started has finished, standard
  output holds whole passes only (and the stop line), the ticker is stopped, nothing can
  happen any more and the exit code is 0; before that there is no exit code.
\<close>

theorem shutdown_quiesces:
  assumes "reachable s"
  shows "(closed s = (mainPc s = MWait \<or> mainPc s = MExited)) \<and>
         (\<forall>a s'. \<not> closed s \<and> fire a s = Some s' \<and> closed s' \<longrightarrow> a = TakeStop) \<and>
         (closed s \<longrightarrow>
            (\<forall>as s'. run as s = Some s' \<longrightarrow> closed s' \<and> passesStarted s' = passesStarted s)) \<and>
         (closed s \<and> mainPc s \<noteq> MExited \<longrightarrow>
            (\<exists>a. \<not> isEnv a \<and> fire a s \<noteq> None) \<and>
            (\<forall>a s'. fire a s = Some s' \<longrightarrow>
               (if isEnv a then stepsToExit s' = stepsToExit s
                else stepsToExit s' < stepsToExit s))) \<and>
         (closed s \<longrightarrow>
            (\<exists>as s'. (\<forall>a\<in>set as. \<not> isEnv a) \<and> length as \<le> 5 \<and>
                     run as s = Some s' \<and> mainPc s' = MExited) \<and>
            (\<forall>as s'. run as s = Some s' \<longrightarrow> length (filter (\<lambda>a. \<not> isEnv a) as) \<le> 5)) \<and>
         (mainPc s = MExited \<longrightarrow>
            printerPc s = PDone \<and> inFlight s = 0 \<and> passesFinished s = passesStarted s \<and>
            length (finished s) = passesStarted s \<and>
            filter (\<lambda>l. l \<noteq> LineStop) (stdout s) = printSystemInfo (finished s) \<and>
            tickerStopped s \<and> exitCode s = Some 0 \<and> (\<forall>a. fire a s = None)) \<and>
         (mainPc s \<noteq> MExited \<longrightarrow> exitCode s = None)"
proof -
  have c: "consistent s" using assms by (rule reachable_consistent)
  have 1: "closed s = (mainPc s = MWait \<or> mainPc s = MExited)"
    using c by (simp add: consistent_def)
  have 2: "\<forall>a s'. \<not> closed s \<and> fire a s = Some s' \<and> closed s' \<longrightarrow> a = TakeStop"
  proof (intro allI impI)
    fix a s' assume "\<not> closed s \<and> fire a s = Some s' \<and> closed s'"
    then show "a = TakeStop" by (cases a) (auto split: if_splits option.splits)
  qed
  have 3: "closed s \<longrightarrow>
            (\<forall>as s'. run as s = Some s' \<longrightarrow> closed s' \<and> passesStarted s' = passesStarted s)"
    using closed_run by blast
  have 4: "closed s \<and> mainPc s \<noteq> MExited \<longrightarrow>
            (\<exists>a. \<not> isEnv a \<and> fire a s \<noteq> None) \<and>
            (\<forall>a s'. fire a s = Some s' \<longrightarrow>
               (if isEnv a then stepsToExit s' = stepsToExit s
                else stepsToExit s' < stepsToExit s))"
    using shutdown_enabled [OF c] shutdown_decreases [OF c] by blast
  have 7: "closed s \<longrightarrow>
            (\<exists>as s'. (\<forall>a\<in>set as. \<not> isEnv a) \<and> length as \<le> 5 \<and>
                     run as s = Some s' \<and> mainPc s' = MExited) \<and>
            (\<forall>as s'. run as s = Some s' \<longrightarrow> length (filter (\<lambda>a. \<not> isEnv a) as) \<le> 5)"
  proof
    assume cl: "closed s"
    from shutdown_completes [OF c cl] obtain as s' where
      as: "\<forall>a\<in>set as. \<not> isEnv a" "length as \<le> stepsToExit s" "run as s = Some s'"
        "mainPc s' = MExited"
      by blast
    have "length as \<le> 5" using as(2) stepsToExit_le [of s] by simp
    then have e: "\<exists>as s'. (\<forall>a\<in>set as. \<not> isEnv a) \<and> length as \<le> 5 \<and>
                     run as s = Some s' \<and> mainPc s' = MExited"
      using as by blast
    have b: "\<forall>as s'. run as s = Some s' \<longrightarrow> length (filter (\<lambda>a. \<not> isEnv a) as) \<le> 5"
    proof (intro allI impI)
      fix bs t
      assume "run bs s = Some t"
      from shutdown_bounded [OF c cl this] stepsToExit_le [of s]
      show "length (filter (\<lambda>a. \<not> isEnv a) bs) \<le> 5" by simp
    qed
    from e b show "(\<exists>as s'. (\<forall>a\<in>set as. \<not> isEnv a) \<and> length as \<le> 5 \<and>
                     run as s = Some s' \<and> mainPc s' = MExited) \<and>
            (\<forall>as s'. run as s = Some s' \<longrightarrow> length (filter (\<lambda>a. \<not> isEnv a) as) \<le> 5)"
      by (rule conjI)
  qed
  have 5: "mainPc s = MExited \<longrightarrow>
            printerPc s = PDone \<and> inFlight s = 0 \<and> passesFinished s = passesStarted s \<and>
            length (finished s) = passesStarted s \<and>
            filter (\<lambda>l. l \<noteq> LineStop) (stdout s) = printSystemInfo (finished s) \<and>
            tickerStopped s \<and> exitCode s = Some 0 \<and> (\<forall>a. fire a s = None)"
  proof
    assume e: "mainPc s = MExited"
    have "\<forall>a. fire a s = None" using exited_stuck [OF c e] by blast
    moreover have "printerPc s = PDone" "exitCode s = Some 0" "tickerStopped s"
      using c e by (simp_all add: consistent_def)
    moreover from this have "inFlight s = 0" "cur s = None"
      using c by (simp_all add: inFlight_def consistent_def)
    moreover from this have "passesFinished s = passesStarted s"
      "length (finished s) = passesStarted s"
      "filter (\<lambda>l. l \<noteq> LineStop) (stdout s) = printSystemInfo (finished s)"
      using c \<open>printerPc s = PDone\<close> by (simp_all add: consistent_def partialPass_def)
    ultimately show "printerPc s = PDone \<and> inFlight s = 0 \<and> passesFinished s = passesStarted s \<and>
            length (finished s) = passesStarted s \<and>
            filter (\<lambda>l. l \<noteq> LineStop) (stdout s) = printSystemInfo (finished s) \<and>
            tickerStopped s \<and> exitCode s = Some 0 \<and> (\<forall>a. fire a s = None)"
      by simp
  qed
  have 6: "mainPc s \<noteq> MExited \<longrightarrow> exitCode s = None"
    using c by (simp add: consistent_def)
  show ?thesis by (intro conjI 1 2 3 4 7 5 6)
qed

lemma trace_runs:
  "run busyTrace headless_init = Some busyState"
  "run stopTrace headless_init = Some midState"
  "run exitTrace midState = Some exitState"
  "run [TickFires, TakeTick] headless_init = Some handoverState"
  "run (butlast stopTrace) headless_init = Some preStopState"
  by (simp_all add: busyTrace_def busyState_def stopTrace_def midState_def exitTrace_def
      exitState_def handoverState_def preStopState_def headless_init_def printPass_eq
      provOk_def)

lemma run_append:
  "run (as @ bs) s = (case run as s of None \<Rightarrow> None | Some s' \<Rightarrow> run bs s')"
  by (induction as arbitrary: s) (auto split: option.splits)

lemma trace_reachable:
  "reachable busyState" "reachable midState" "reachable exitState"
  "reachable handoverState" "reachable preStopState"
proof -
  show "reachable handoverState" unfolding reachable_def using trace_runs(4) by blast
  show "reachable preStopState" unfolding reachable_def using trace_runs(5) by blast
  show "reachable busyState" unfolding reachable_def using trace_runs(1) by blast
  show "reachable midState" unfolding reachable_def using trace_runs(2) by blast
  have "run (stopTrace @ exitTrace) headless_init = Some exitState"
    by (simp add: run_append trace_runs)
  then show "reachable exitState" unfolding reachable_def by blast
qed

text \<open>
  The hand-over of a tick starts a pass; with the pass in flight and two ticks waiting, a
  further tick changes nothing and no hand-over can happen. Four messages of the terminal
  frontend, two of them ticks, leave one tick outstanding.
\<close>

theorem no_overlapping_pass_witness:
  "reachable busyState \<and> inFlight busyState = 1 \<and>
   passesStarted busyState = 1 \<and> passesFinished busyState = 0 \<and>
   queuedTicks busyState = 2 \<and>
   fire TickFires busyState = Some busyState \<and>
   (\<forall>prov. fire (SendTick prov) busyState = None) \<and>
   reachable handoverState \<and> inFlight handoverState = 0 \<and>
   map_option inFlight (fire (SendTick provOk) handoverState) = Some 1 \<and>
   map_option pendingTicks (tui_run plainLib tuiTrace (tui_init m0)) = Some 1"
proof -
  note t = no_overlapping_pass [OF trace_reachable(1)]
  note h = no_overlapping_pass [OF trace_reachable(4)]
  have "fire (SendTick provOk) handoverState \<noteq> None"
    by (simp add: handoverState_def headless_init_def)
  then obtain hs where hs: "fire (SendTick provOk) handoverState = Some hs" by blast
  with h have "inFlight handoverState = 0" "inFlight hs = 1" by blast+
  with hs have k: "inFlight handoverState = 0"
    "map_option inFlight (fire (SendTick provOk) handoverState) = Some 1" by simp_all
  have a: "inFlight busyState = 1" "queuedTicks busyState = 2"
    "passesStarted busyState = 1" "passesFinished busyState = 0"
    by (simp_all add: busyState_def inFlight_def queuedTicks_def)
  have f: "fire TickFires busyState \<noteq> None" by (simp add: busyState_def)
  then obtain s' where s': "fire TickFires busyState = Some s'" by blast
  have "tickBuf busyState = 1" by (simp add: busyState_def)
  with t s' have "s' = busyState" by blast
  with s' have b: "fire TickFires busyState = Some busyState" by simp
  have c: "\<forall>prov. fire (SendTick prov) busyState = None"
  proof
    fix prov
    show "fire (SendTick prov) busyState = None"
    proof (cases "fire (SendTick prov) busyState")
      case None
      then show ?thesis .
    next
      case (Some s'')
      with t have "inFlight busyState = 0" by blast
      with a show ?thesis by simp
    qed
  qed
  have "tui_run plainLib tuiTrace (tui_init m0) \<noteq> None"
    by (simp add: tuiTrace_def tui_deliver_def tui_init_def Update_tick_eq isTick_def
        Update_def Focused_def m0_def ticksOf_def Init_def tickEvery_def
        tickCPU_eq tickMEM_eq tickProcs_eq split: prod.splits)
  then obtain u where u: "tui_run plainLib tuiTrace (tui_init m0) = Some u" by blast
  with t have "pendingTicks u = 1" by blast
  with u have d: "map_option pendingTicks (tui_run plainLib tuiTrace (tui_init m0)) = Some 1"
    by simp
  show ?thesis using trace_reachable(1,4) a b c d k by simp
qed

text \<open>
  The signal is taken after the first line of a pass; the pass prints its other two lines,
  the loop ends, \<open>main\<close> returns with exit code 0, and nothing can happen after that.
\<close>

theorem shutdown_quiesces_witness:
  "reachable preStopState \<and> \<not> closed preStopState \<and>
   fire TakeStop preStopState = Some midState \<and>
   reachable midState \<and> closed midState \<and> mainPc midState \<noteq> MExited \<and>
   exitCode midState = None \<and>
   inFlight midState = 1 \<and> stepsToExit midState = 4 \<and>
   fire PrintMEM midState \<noteq> None \<and>
   run exitTrace midState = Some exitState \<and>
   passesStarted exitState = passesStarted midState \<and>
   reachable exitState \<and> mainPc exitState = MExited \<and> printerPc exitState = PDone \<and>
   passesFinished exitState = 1 \<and> exitCode exitState = Some 0 \<and>
   stdout exitState =
     [LineCPU (zeroCPU\<lparr>Idle := Finite 70\<rparr>), LineStop,
      LineMEM (zeroMEM\<lparr>UsedPercent := Finite 50\<rparr>), LineProcs [procC, procB, procA]] \<and>
   (\<forall>a. fire a exitState = None)"
proof -
  note m = shutdown_quiesces [OF trace_reachable(2)]
  note e = shutdown_quiesces [OF trace_reachable(3)]
  have cm: "closed midState" "mainPc midState \<noteq> MExited" "inFlight midState = 1"
    "stepsToExit midState = 4" "fire PrintMEM midState \<noteq> None"
    by (simp_all add: midState_def inFlight_def stepsToExit_def)
  have ps: "\<not> closed preStopState" "fire TakeStop preStopState = Some midState"
    by (simp_all add: preStopState_def midState_def)
  have en: "exitCode midState = None" using m cm(2) by blast
  have p: "passesStarted exitState = passesStarted midState"
    using m cm(1) trace_runs(3) by blast
  have x: "mainPc exitState = MExited" by (simp add: exitState_def)
  with e have ex: "printerPc exitState = PDone" "passesFinished exitState = passesStarted exitState"
    "exitCode exitState = Some 0" "\<forall>a. fire a exitState = None"
    by blast+
  have n: "passesStarted midState = 1" by (simp add: midState_def)
  have o: "stdout exitState =
     [LineCPU (zeroCPU\<lparr>Idle := Finite 70\<rparr>), LineStop,
      LineMEM (zeroMEM\<lparr>UsedPercent := Finite 50\<rparr>), LineProcs [procC, procB, procA]]"
    by (simp add: exitState_def)
  show ?thesis using trace_reachable(2,3,5) trace_runs(3) cm ps en p x ex n o by simp
qed

text \<open>
  Claim C7 as stated fails: a pass can start after the signal has arrived. With a tick and
  the signal both pending, the \<open>select\<close> may take the tick, and the pass starts while the
  signal still waits in \<open>stopChan\<close>.
\<close>

theorem pass_starts_after_signal:
  "run [TickFires, SignalArrives] headless_init = Some signalledState \<and>
   stopBuf signalledState = 1 \<and> passesStarted signalledState = 0 \<and>
   run [TakeTick, SendTick provOk] signalledState = Some lateState \<and>
   stopBuf lateState = 1 \<and> passesStarted lateState = 1 \<and> inFlight lateState = 1"
  by (simp add: signalledState_def lateState_def headless_init_def inFlight_def)

end
